(* ===== verification/Prelude.thy ===== *)
theory Prelude
  imports Main "HOL-Library.Word"
begin

text \<open>
  Shared vocabulary of the development: machine integers, the faults a C++ call can end in
  and the result type that carries them, console output, C characters, decimal and
  hexadecimal printing, and the generic locale for step relations with an invariant.

  A C++ \<open>char\<close> is an Isabelle \<open>char\<close> and both \<open>std::string\<close> and a byte buffer are
  lists of them. \<open>char\<close> is a signed type on the platform of the program (x86-64, g++), so
  arithmetic on a character goes through \<open>schar\<close>, its sign-extended 32-bit value.
\<close>

unbundle bit_operations_syntax

named_theorems result_simps "inversion of the result monad"
named_theorems char_simps "classification of concrete characters"

type_synonym u16 = "16 word"
type_synonym i32 = "32 word"

subsection \<open>Faults and results\<close>

text \<open>
  What can end a call other than returning: a \<open>std::runtime_error\<close> with its message, a
  \<open>std::logic_error\<close> (which no handler of the program catches), a failed
  \<open>std::get\<close>, undefined behaviour with its reason, a call that blocks for ever, and
  \<open>exit\<close>.
\<close>

datatype console = Stdout string | Stderr string   \<comment> \<open>a chunk of output\<close>

datatype undefined_behaviour =
    Out_of_bounds     \<comment> \<open>a read past the end of a buffer\<close>
  | Overrun           \<comment> \<open>a write past the end of a buffer\<close>
  | Uninitialised     \<comment> \<open>the value of a variable that was never written\<close>
  | Empty_container   \<comment> \<open>\<open>front\<close> or \<open>pop\<close> on an empty queue\<close>

datatype fault =
    Runtime_error string
  | Logic_error string
  | Bad_variant_access
  | Undefined undefined_behaviour
  | Blocked
  | Exit int "console list"   \<comment> \<open>the status and what was printed on the way out\<close>

type_synonym 'a result = "fault + 'a"

definition rbind :: "'a result \<Rightarrow> ('a \<Rightarrow> 'b result) \<Rightarrow> 'b result" where
  "rbind r f = (case r of Inl e \<Rightarrow> Inl e | Inr x \<Rightarrow> f x)"

lemma rbind_Inl [simp]: "rbind (Inl e) f = Inl e"
  by (simp add: rbind_def)

lemma rbind_Inr [simp]: "rbind (Inr x) f = f x"
  by (simp add: rbind_def)

lemma rbind_eq_Inr [result_simps]: "rbind r f = Inr y \<longleftrightarrow> (\<exists>x. r = Inr x \<and> f x = Inr y)"
  by (cases r) auto

lemma rbind_eq_Inl [result_simps]:
  "rbind r f = Inl e \<longleftrightarrow> r = Inl e \<or> (\<exists>x. r = Inr x \<and> f x = Inl e)"
  by (cases r) auto

lemma rbind_cong [fundef_cong]:
  "r = r' \<Longrightarrow> (\<And>x. r' = Inr x \<Longrightarrow> f x = g x) \<Longrightarrow> rbind r f = rbind r' g"
  by (cases r') auto

lemma if_Inl_eq_Inr [result_simps]: "(if b then Inl e else r) = Inr x \<longleftrightarrow> \<not> b \<and> r = Inr x"
  by simp

lemma if_Inr_Inl_eq_Inr [result_simps]: "(if b then Inr x else Inl e) = Inr y \<longleftrightarrow> b \<and> x = y"
  by auto

lemma Let_eq_Inr [result_simps]: "(let x = v in f x) = Inr w \<longleftrightarrow> f v = Inr w"
  by simp

text \<open>A loop over a list whose body may fault.\<close>

fun rfold :: "('a \<Rightarrow> 's \<Rightarrow> 's result) \<Rightarrow> 'a list \<Rightarrow> 's \<Rightarrow> 's result" where
  "rfold f [] s = Inr s"
| "rfold f (x # xs) s = rbind (f x s) (rfold f xs)"

lemma rfold_append: "rfold f (xs @ ys) s = rbind (rfold f xs s) (rfold f ys)"
proof (induction xs arbitrary: s)
  case (Cons x xs)
  then show ?case by (cases "f x s") auto
qed simp

text \<open>An invariant of the body is an invariant of the loop.\<close>

lemma rfold_inv:
  assumes "rfold f xs s = Inr s'" and "P s" and "\<And>x s s'. P s \<Longrightarrow> f x s = Inr s' \<Longrightarrow> P s'"
  shows "P s'"
  using assms(1,2)
proof (induction xs arbitrary: s)
  case (Cons x xs)
  then show ?case using assms(3) by (auto simp: rbind_eq_Inr)
qed simp

lemma list_case_eq_Inr [result_simps]:
  "(case xs of [] \<Rightarrow> Inl e | y # ys \<Rightarrow> f y ys) = Inr z \<longleftrightarrow> (\<exists>y ys. xs = y # ys \<and> f y ys = Inr z)"
  by (cases xs) auto

lemma prod_case_eq_Inr [result_simps]:
  "(case p of (a, b) \<Rightarrow> f a b) = Inr z \<longleftrightarrow> (\<exists>a b. p = (a, b) \<and> f a b = Inr z)"
  by (cases p) auto

subsection \<open>Characters\<close>

abbreviation NUL :: char where "NUL \<equiv> CHR 0x00"
abbreviation LF :: char where "LF \<equiv> CHR 0x0A"
abbreviation CR :: char where "CR \<equiv> CHR 0x0D"
abbreviation SP :: char where "SP \<equiv> CHR 0x20"
abbreviation ESC :: char where "ESC \<equiv> CHR 0x1B"

definition code :: "char \<Rightarrow> nat" where
  "code c = of_char c"

definition in_range :: "nat \<Rightarrow> nat \<Rightarrow> char \<Rightarrow> bool" where
  "in_range lo hi c \<longleftrightarrow> lo \<le> code c \<and> code c \<le> hi"

text \<open>\<open>isspace\<close> in the C locale: blank, \<open>\t\<close>, \<open>\n\<close>, \<open>\v\<close>, \<open>\f\<close>, \<open>\r\<close>.\<close>

definition isspace :: "char \<Rightarrow> bool" where
  "isspace c \<longleftrightarrow> code c = 32 \<or> in_range 9 13 c"

lemma code_eq_iff: "code c = code d \<longleftrightarrow> c = d"
  by (simp add: code_def)

lemma code_char_of [char_simps]: "code (char_of n) = n mod 256"
  by (simp add: code_def)

lemma NUL_code: "c = NUL \<longleftrightarrow> code c = 0"
  using code_eq_iff [of c NUL] by (simp add: code_def)

lemma in_range_not_NUL: "in_range lo hi c \<Longrightarrow> 0 < lo \<Longrightarrow> c \<noteq> NUL"
  by (auto simp: in_range_def NUL_code)

lemma in_range_not_isspace: "in_range lo hi c \<Longrightarrow> 32 < lo \<Longrightarrow> \<not> isspace c"
  by (auto simp: isspace_def in_range_def)

lemma range_no_NUL: "list_all (in_range lo hi) s \<Longrightarrow> 0 < lo \<Longrightarrow> NUL \<notin> set s"
  by (auto simp: list_all_iff dest!: bspec dest: in_range_not_NUL)

lemma isspace_SP [simp]: "isspace SP"
  by (simp add: isspace_def code_def)

lemma isspace_CR [simp]: "isspace CR"
  by (simp add: isspace_def in_range_def code_def)

text \<open>The value of a character in an arithmetic expression: sign extended to \<open>int\<close>.\<close>

definition schar :: "char \<Rightarrow> i32" where
  "schar c = scast (of_char c :: 8 word)"

subsection \<open>Printing numbers\<close>

fun show_nat :: "nat \<Rightarrow> string" where
  "show_nat n = (if n < 10 then [char_of (48 + n)]
     else show_nat (n div 10) @ [char_of (48 + n mod 10)])"

declare show_nat.simps [simp del]

definition show_int :: "int \<Rightarrow> string" where
  "show_int i = (if i < 0 then CHR ''-'' # show_nat (nat (- i)) else show_nat (nat i))"

definition hex_digit :: "nat \<Rightarrow> char" where
  "hex_digit n = (if n < 10 then char_of (48 + n) else char_of (87 + n))"

text \<open>\<open>std::hex\<close> of a byte: lower case, no padding.\<close>

definition show_hex :: "nat \<Rightarrow> string" where
  "show_hex n = (if n < 16 then [hex_digit n] else [hex_digit (n div 16), hex_digit (n mod 16)])"

subsection \<open>Big-endian 16-bit values\<close>

definition hi_byte :: "u16 \<Rightarrow> char" where
  "hi_byte v = char_of (unat (drop_bit 8 v))"

definition lo_byte :: "u16 \<Rightarrow> char" where
  "lo_byte v = char_of (unat v)"

lemma of_char_char_of_word: "(of_char (char_of n) :: 8 word) = of_nat n" for n :: nat
proof -
  have "(of_char (char_of n) :: 8 word) = of_nat (of_char (char_of n))"
    by (simp only: of_nat_of_char)
  also have "\<dots> = of_nat (n mod 256)" by simp
  also have "\<dots> = of_nat n" by (simp add: word_unat_eq_iff unat_of_nat mod_mod_cancel)
  finally show ?thesis .
qed

lemma of_char_hi_byte [char_simps]: "(of_char (hi_byte v) :: 8 word) = ucast (drop_bit 8 v)"
  by (simp add: hi_byte_def of_char_char_of_word)

lemma of_char_lo_byte [char_simps]: "(of_char (lo_byte v) :: 8 word) = ucast v"
  by (simp add: lo_byte_def of_char_char_of_word)

lemma below_16_cases:
  "n < 16 \<Longrightarrow> n \<in> {0, 1, 2, 3, 4, 5, 6, 7, 8, 9, 10, 11, 12, 13, 14, 15}" for n :: nat
  by (simp add: less_eq_Suc_le) presburger

lemma bit_0xFF00: "bit (0xFF00 :: u16) n \<longleftrightarrow> 8 \<le> n \<and> n < 16"
proof (cases "n < 16")
  case True
  then show ?thesis using below_16_cases [OF True] by (auto simp: bit_numeral_word_iff)
next
  case False
  then show ?thesis by (auto dest: bit_imp_le_length)
qed

subsection \<open>Step relations with an invariant\<close>

text \<open>
  The interface of every state machine of the development: start states, a step relation
  and an invariant that the start states satisfy and the steps keep. What is proved once
  here, the invariant of the reachable states, is used through an interpretation on each
  machine of the model.
\<close>

inductive reach :: "('s \<Rightarrow> bool) \<Rightarrow> ('s \<Rightarrow> 's \<Rightarrow> bool) \<Rightarrow> 's \<Rightarrow> bool"
  for start :: "'s \<Rightarrow> bool" and step :: "'s \<Rightarrow> 's \<Rightarrow> bool" where
  reach_start: "start s \<Longrightarrow> reach start step s"
| reach_step: "reach start step s \<Longrightarrow> step s t \<Longrightarrow> reach start step t"

locale step_invariant =
  fixes start :: "'s \<Rightarrow> bool"
    and step :: "'s \<Rightarrow> 's \<Rightarrow> bool"
    and inv :: "'s \<Rightarrow> bool"
  assumes inv_start: "start s \<Longrightarrow> inv s"
    and inv_step: "inv s \<Longrightarrow> step s t \<Longrightarrow> inv t"
begin

lemma reach_inv: "reach start step s \<Longrightarrow> inv s"
  by (induction rule: reach.induct) (auto intro: inv_start inv_step)

lemma steps_inv: "step\<^sup>*\<^sup>* s t \<Longrightarrow> inv s \<Longrightarrow> inv t"
  by (induction rule: rtranclp_induct) (auto intro: inv_step)

end

end
