(* ===== verification/Console.thy ===== *)
theory Console
  imports Prelude
begin

text \<open>
  The trace printers of \<open>utils.h\<close>. Each writes its text in one colour to standard output
  when the global flag \<open>verbose\<close> is set and nothing otherwise. The other theories model a
  run without \<open>-v\<close>: by \<open>printers_silent\<close> every call of a printer is then the empty
  output, so the calls do not appear in their definitions. What the program writes to
  \<open>std::cout\<close> and \<open>std::cerr\<close> itself does appear, as a list of \<open>console\<close> chunks.
\<close>

definition coloured :: "string \<Rightarrow> bool \<Rightarrow> string \<Rightarrow> console list" where
  "coloured colour verbose text =
     (if verbose then [Stdout (ESC # ''['' @ colour @ ''m'' @ text @ ESC # ''[0m''), Stdout [LF]]
      else [])"

definition printRed :: "bool \<Rightarrow> string \<Rightarrow> console list" where
  "printRed = coloured ''1;31''"

definition printGreen :: "bool \<Rightarrow> string \<Rightarrow> console list" where
  "printGreen = coloured ''1;32''"

definition printYellow :: "bool \<Rightarrow> string \<Rightarrow> console list" where
  "printYellow = coloured ''1;33''"

definition printBlue :: "bool \<Rightarrow> string \<Rightarrow> console list" where
  "printBlue = coloured ''1;34''"

definition printMagenta :: "bool \<Rightarrow> string \<Rightarrow> console list" where
  "printMagenta = coloured ''1;35''"

definition printBrown :: "bool \<Rightarrow> string \<Rightarrow> console list" where
  "printBrown = coloured ''0;33''"

definition printCyan :: "bool \<Rightarrow> string \<Rightarrow> console list" where
  "printCyan = coloured ''1;36''"

definition printWhite :: "bool \<Rightarrow> string \<Rightarrow> console list" where
  "printWhite = coloured ''1;37''"

lemmas printer_defs = printRed_def printGreen_def printYellow_def printBlue_def
  printMagenta_def printBrown_def printCyan_def printWhite_def coloured_def

lemma printers_silent:
  "printRed False t = [] \<and> printGreen False t = [] \<and> printYellow False t = [] \<and>
   printBlue False t = [] \<and> printMagenta False t = [] \<and> printBrown False t = [] \<and>
   printCyan False t = [] \<and> printWhite False t = []"
  by (simp add: printer_defs)

end
