(* ===== verification/Messages.thy ===== *)
theory Messages
  imports Console
begin

text \<open>
  The class \<open>Mail\<close> of \<open>mail-box.h\<close>: the message types, the variant of message bodies,
  the validation of their fields by the constructors, the accessors and \<open>printMail\<close>.
\<close>

datatype ProtocolType = TCP | UDP

subsection \<open>Validation\<close>

text \<open>
  \<open>std::regex_match\<close> against a pattern \<open>[class]{1,n}\<close>: between 1 and \<open>n\<close> characters, all
  of the class. A character above 0x7F is negative as a \<open>char\<close> and is in none of the
  classes, as \<open>in_range\<close> has it.
\<close>

definition regex_match :: "string \<Rightarrow> (char \<Rightarrow> bool) \<times> nat \<Rightarrow> bool" where
  "regex_match value pattern =
     (case pattern of (cls, n) \<Rightarrow> 1 \<le> length value \<and> length value \<le> n \<and> list_all cls value)"

definition alnum_dash :: "char \<Rightarrow> bool" where
  "alnum_dash c \<longleftrightarrow> in_range 65 90 c \<or> in_range 97 122 c \<or> in_range 48 57 c \<or> code c = 45"

definition hexStream :: "string \<Rightarrow> string" where
  "hexStream value = concat (map (\<lambda>c. show_hex (code c) @ '' '') value)"

definition validateString ::
    "string \<Rightarrow> (char \<Rightarrow> bool) \<times> nat \<Rightarrow> nat \<Rightarrow> string \<Rightarrow> unit result" where
  "validateString value pattern maxLength fieldName =
     (if maxLength < length value \<or> \<not> regex_match value pattern
      then Inl (Runtime_error (fieldName @ '' is invalid.'' @ '' value: ['' @ value @
             ''] Hex: ['' @ hexStream value @ '']''))
      else Inr ())"

definition validateUsername :: "string \<Rightarrow> unit result" where
  "validateUsername username = validateString username (alnum_dash, 20) 20 ''Username''"

definition validateChannelID :: "string \<Rightarrow> unit result" where
  "validateChannelID channelID =
     validateString channelID (\<lambda>c. alnum_dash c \<or> code c = 46, 20) 20 ''Username''"

definition validateSecret :: "string \<Rightarrow> unit result" where
  "validateSecret secret = validateString secret (alnum_dash, 128) 128 ''Secret''"

definition validateDisplayName :: "string \<Rightarrow> unit result" where
  "validateDisplayName displayName =
     validateString displayName (in_range 33 126, 20) 20 ''DisplayName''"

definition validateMessageContent :: "string \<Rightarrow> unit result" where
  "validateMessageContent messageContent =
     validateString messageContent (in_range 32 126, 1400) 1400 ''MessageContent''"

subsection \<open>Message types and bodies\<close>

datatype MessageType = AUTH | JOIN | ERR | BYE | MSG | REPLY | CONFIRM | UNKNOWN

fun type_code :: "MessageType \<Rightarrow> nat" where
  "type_code AUTH = 0x02"
| "type_code JOIN = 0x03"
| "type_code ERR = 0xFE"
| "type_code BYE = 0xFF"
| "type_code MSG = 0x04"
| "type_code REPLY = 0x01"
| "type_code CONFIRM = 0x00"
| "type_code UNKNOWN = 0x05"

text \<open>
  The alternatives of \<open>std::variant MessageData\<close>, fields in the order of the structs. The
  \<open>int\<close> fields are only assigned, compared and narrowed, so they are unbounded here; the
  one \<open>uint16_t\<close> field keeps its width.
\<close>

datatype MessageData =
    ConfirmMessage int                         \<comment> \<open>RefMessageID\<close>
  | AuthMessage u16 string string string       \<comment> \<open>MessageID, Username, DisplayName, Secret\<close>
  | JoinMessage int string string              \<comment> \<open>MessageID, ChannelID, DisplayName\<close>
  | ErrorMessage int string string             \<comment> \<open>MessageID, DisplayName, MessageContent\<close>
  | ByeMessage int                             \<comment> \<open>MessageID\<close>
  | TextMessage bool int string string         \<comment> \<open>ToSend, MessageID, DisplayName, MessageContent\<close>
  | ReplyMessage int bool int string           \<comment> \<open>MessageID, Result, RefMessageID, MessageContent\<close>
  | UnknownMessage int                         \<comment> \<open>MessageID\<close>

text \<open>The validating constructors, checks in the order of their bodies.\<close>

definition mkAuthMessage :: "u16 \<Rightarrow> string \<Rightarrow> string \<Rightarrow> string \<Rightarrow> MessageData result" where
  "mkAuthMessage mid username displayName secret =
     rbind (validateUsername username) (\<lambda>_.
     rbind (validateDisplayName displayName) (\<lambda>_.
     rbind (validateSecret secret) (\<lambda>_.
     Inr (AuthMessage mid username displayName secret))))"

definition mkJoinMessage :: "int \<Rightarrow> string \<Rightarrow> string \<Rightarrow> MessageData result" where
  "mkJoinMessage mid channelID displayName =
     rbind (validateChannelID channelID) (\<lambda>_.
     rbind (validateDisplayName displayName) (\<lambda>_.
     Inr (JoinMessage mid channelID displayName)))"

definition mkErrorMessage :: "int \<Rightarrow> string \<Rightarrow> string \<Rightarrow> MessageData result" where
  "mkErrorMessage mid displayName messageContent =
     rbind (validateDisplayName displayName) (\<lambda>_.
     rbind (validateMessageContent messageContent) (\<lambda>_.
     Inr (ErrorMessage mid displayName messageContent)))"

definition mkTextMessage :: "int \<Rightarrow> string \<Rightarrow> string \<Rightarrow> MessageData result" where
  "mkTextMessage mid displayName messageContent =
     rbind (validateDisplayName displayName) (\<lambda>_.
     rbind (validateMessageContent messageContent) (\<lambda>_.
     Inr (TextMessage False mid displayName messageContent)))"

definition mkReplyMessage :: "int \<Rightarrow> bool \<Rightarrow> int \<Rightarrow> string \<Rightarrow> MessageData result" where
  "mkReplyMessage mid result refMessageID messageContent =
     rbind (validateMessageContent messageContent) (\<lambda>_.
     Inr (ReplyMessage mid result refMessageID messageContent))"

text \<open>
  A \<open>Mail\<close>. \<open>Mail mail;\<close> leaves \<open>type\<close> unwritten (\<open>None\<close>) and gives \<open>data\<close> its first
  alternative, value-initialised.
\<close>

record Mail =
  mtype :: "MessageType option"
  mdata :: MessageData
  addToMailQueue :: bool
  sigint :: bool

definition default_Mail :: Mail where
  "default_Mail =
     \<lparr>mtype = None, mdata = ConfirmMessage 0, addToMailQueue = True, sigint = False\<rparr>"

subsection \<open>Accessors\<close>

fun data_MessageID :: "MessageData \<Rightarrow> int" where
  "data_MessageID (ConfirmMessage ref) = ref"
| "data_MessageID (AuthMessage mid _ _ _) = uint mid"
| "data_MessageID (JoinMessage mid _ _) = mid"
| "data_MessageID (ErrorMessage mid _ _) = mid"
| "data_MessageID (ByeMessage mid) = mid"
| "data_MessageID (TextMessage _ mid _ _) = mid"
| "data_MessageID (ReplyMessage mid _ _ _) = mid"
| "data_MessageID (UnknownMessage mid) = mid"

definition getMessageID :: "Mail \<Rightarrow> int" where
  "getMessageID m = data_MessageID (mdata m)"

fun data_RefMessageID :: "MessageData \<Rightarrow> int" where
  "data_RefMessageID (ConfirmMessage ref) = ref"
| "data_RefMessageID (ReplyMessage _ _ ref _) = ref"
| "data_RefMessageID _ = -1"

definition getRefMessageID :: "Mail \<Rightarrow> int" where
  "getRefMessageID m = data_RefMessageID (mdata m)"

fun print_data :: "MessageData \<Rightarrow> string" where
  "print_data (ConfirmMessage ref) = ''CONFIRM: RefMessageID = '' @ show_int ref @ [LF]"
| "print_data (AuthMessage mid u d s) = ''AUTH: MessageID = '' @ show_int (uint mid) @
     '', Username = '' @ u @ '', DisplayName = '' @ d @ '', Secret = '' @ s @ [LF]"
| "print_data (JoinMessage mid c d) = ''JOIN: MessageID = '' @ show_int mid @
     '', ChannelID = '' @ c @ '', DisplayName = '' @ d @ [LF]"
| "print_data (ErrorMessage mid d c) = ''ERR: MessageID = '' @ show_int mid @
     '', DisplayName = '' @ d @ '', MessageContent = '' @ c @ [LF]"
| "print_data (ByeMessage mid) = ''BYE: MessageID = '' @ show_int mid @ [LF]"
| "print_data (TextMessage _ mid d c) = ''TEXT: MessageID = '' @ show_int mid @
     '', DisplayName = '' @ d @ '', MessageContent = '' @ c @ [LF]"
| "print_data (ReplyMessage mid r ref c) = ''REPLY: MessageID = '' @ show_int mid @
     '', Result = '' @ (if r then ''Success'' else ''Failure'') @
     '', RefMessageID = '' @ show_int ref @ '', MessageContent = '' @ c @ [LF]"
| "print_data (UnknownMessage mid) = ''UNKNOWN: MessageID = '' @ show_int mid @ [LF]"

definition printMail :: "Mail \<Rightarrow> console list" where
  "printMail m =
     [Stdout (ESC # ''[1;35m''), Stdout (print_data (mdata m)), Stdout (ESC # ''[0m'')]"

subsection \<open>What the constructors guarantee\<close>

text \<open>The fields a constructor accepts, written as predicates.\<close>

definition valid_username :: "string \<Rightarrow> bool" where
  "valid_username s \<longleftrightarrow> s \<noteq> [] \<and> length s \<le> 20 \<and> list_all alnum_dash s"

definition valid_channel :: "string \<Rightarrow> bool" where
  "valid_channel s \<longleftrightarrow> s \<noteq> [] \<and> length s \<le> 20 \<and> list_all (\<lambda>c. alnum_dash c \<or> code c = 46) s"

definition valid_secret :: "string \<Rightarrow> bool" where
  "valid_secret s \<longleftrightarrow> s \<noteq> [] \<and> length s \<le> 128 \<and> list_all alnum_dash s"

definition valid_name :: "string \<Rightarrow> bool" where
  "valid_name s \<longleftrightarrow> s \<noteq> [] \<and> length s \<le> 20 \<and> list_all (in_range 33 126) s"

definition valid_content :: "string \<Rightarrow> bool" where
  "valid_content s \<longleftrightarrow> s \<noteq> [] \<and> length s \<le> 1400 \<and> list_all (in_range 32 126) s"

lemmas valid_defs = valid_username_def valid_channel_def valid_secret_def valid_name_def
  valid_content_def

fun valid_data :: "MessageData \<Rightarrow> bool" where
  "valid_data (AuthMessage _ u d s) \<longleftrightarrow> valid_username u \<and> valid_name d \<and> valid_secret s"
| "valid_data (JoinMessage _ c d) \<longleftrightarrow> valid_channel c \<and> valid_name d"
| "valid_data (ErrorMessage _ d c) \<longleftrightarrow> valid_name d \<and> valid_content c"
| "valid_data (TextMessage _ _ d c) \<longleftrightarrow> valid_name d \<and> valid_content c"
| "valid_data (ReplyMessage _ _ _ c) \<longleftrightarrow> valid_content c"
| "valid_data _ \<longleftrightarrow> True"

lemma valid_nonempty [simp]:
  "\<not> valid_username []" "\<not> valid_channel []" "\<not> valid_secret []" "\<not> valid_name []"
  "\<not> valid_content []"
  by (simp_all add: valid_defs)

text \<open>One lemma for the five validators: success is the predicate, failure one message.\<close>

lemma validate_iff [result_simps]:
  "validateUsername s = Inr x \<longleftrightarrow> valid_username s"
  "validateChannelID s = Inr x \<longleftrightarrow> valid_channel s"
  "validateSecret s = Inr x \<longleftrightarrow> valid_secret s"
  "validateDisplayName s = Inr x \<longleftrightarrow> valid_name s"
  "validateMessageContent s = Inr x \<longleftrightarrow> valid_content s"
  by (auto simp: validateUsername_def validateChannelID_def validateSecret_def
      validateDisplayName_def validateMessageContent_def validateString_def regex_match_def
      valid_defs Suc_le_eq)

lemmas mk_defs = mkAuthMessage_def mkJoinMessage_def mkErrorMessage_def mkTextMessage_def
  mkReplyMessage_def

lemma mk_Inr [result_simps]:
  "mkAuthMessage mid u d s = Inr x \<longleftrightarrow> valid_data (AuthMessage mid u d s) \<and> x = AuthMessage mid u d s"
  "mkJoinMessage n c d = Inr x \<longleftrightarrow> valid_data (JoinMessage n c d) \<and> x = JoinMessage n c d"
  "mkErrorMessage n d t = Inr x \<longleftrightarrow> valid_data (ErrorMessage n d t) \<and> x = ErrorMessage n d t"
  "mkTextMessage n d t = Inr x \<longleftrightarrow>
     valid_data (TextMessage False n d t) \<and> x = TextMessage False n d t"
  "mkReplyMessage n r ref t = Inr x \<longleftrightarrow>
     valid_data (ReplyMessage n r ref t) \<and> x = ReplyMessage n r ref t"
  by (auto simp: mk_defs result_simps)

text \<open>Every constructor either returns its message or throws a \<open>runtime_error\<close>.\<close>

lemma validateString_cases:
  "validateString v p n f = Inr () \<or> (\<exists>msg. validateString v p n f = Inl (Runtime_error msg))"
  by (simp add: validateString_def)

lemma mk_valid [simp]:
  "valid_data (AuthMessage mid u d s) \<Longrightarrow> mkAuthMessage mid u d s = Inr (AuthMessage mid u d s)"
  "valid_data (JoinMessage n c d) \<Longrightarrow> mkJoinMessage n c d = Inr (JoinMessage n c d)"
  "valid_data (ErrorMessage n d t) \<Longrightarrow> mkErrorMessage n d t = Inr (ErrorMessage n d t)"
  "valid_data (TextMessage b n d t) \<Longrightarrow> mkTextMessage n d t = Inr (TextMessage False n d t)"
  "valid_data (ReplyMessage n r ref t) \<Longrightarrow>
     mkReplyMessage n r ref t = Inr (ReplyMessage n r ref t)"
  by (simp_all add: mk_Inr)

text \<open>The characters of valid fields, for the readers: no NUL, no line end, no blank.\<close>

lemma alnum_dash_range: "alnum_dash c \<Longrightarrow> in_range 33 126 c"
  by (auto simp: alnum_dash_def in_range_def)

lemma valid_name_range:
  "valid_username s \<Longrightarrow> list_all (in_range 33 126) s"
  "valid_channel s \<Longrightarrow> list_all (in_range 33 126) s"
  "valid_secret s \<Longrightarrow> list_all (in_range 33 126) s"
  "valid_name s \<Longrightarrow> list_all (in_range 33 126) s"
  by (auto simp: valid_defs in_range_def list_all_iff dest!: alnum_dash_range)

lemma valid_content_range: "valid_content s \<Longrightarrow> list_all (in_range 32 126) s"
  by (simp add: valid_content_def)

subsection \<open>Properties\<close>

text \<open>The error a validator throws for a field of the given name.\<close>

definition rejection :: "string \<Rightarrow> string \<Rightarrow> fault" where
  "rejection field value =
     Runtime_error (field @ '' is invalid. value: ['' @ value @ ''] Hex: ['' @ hexStream value @ '']'')"

lemma validators_eq:
  "validateUsername s = (if valid_username s then Inr () else Inl (rejection ''Username'' s))"
  "validateChannelID s = (if valid_channel s then Inr () else Inl (rejection ''Username'' s))"
  "validateSecret s = (if valid_secret s then Inr () else Inl (rejection ''Secret'' s))"
  "validateDisplayName s = (if valid_name s then Inr () else Inl (rejection ''DisplayName'' s))"
  "validateMessageContent s =
     (if valid_content s then Inr () else Inl (rejection ''MessageContent'' s))"
  by (auto simp: validateUsername_def validateChannelID_def validateSecret_def rejection_def
      validateDisplayName_def validateMessageContent_def validateString_def regex_match_def
      valid_defs Suc_le_eq)

text \<open>
  The specification of a field, independent of the validators: its characters one by one, its
  greatest length, and the text of the error, in which every byte is written in base 16 with
  lower-case digits and no leading zero, followed by a blank.
\<close>

definition words_over :: "char set \<Rightarrow> nat \<Rightarrow> string set" where
  "words_over A n = {s. 1 \<le> length s \<and> length s \<le> n \<and> set s \<subseteq> A}"

definition name_letters :: "char set" where
  "name_letters = set ''ABCDEFGHIJKLMNOPQRSTUVWXYZabcdefghijklmnopqrstuvwxyz0123456789-''"

definition code_points :: "nat \<Rightarrow> nat \<Rightarrow> char set" where
  "code_points lo hi = char_of ` {lo..hi}"

definition hex_of_byte :: "nat \<Rightarrow> string" where
  "hex_of_byte n = (if n < 16 then [] else [''0123456789abcdef'' ! (n div 16)]) @ [''0123456789abcdef'' ! (n mod 16)]"

definition refusal :: "string \<Rightarrow> string \<Rightarrow> 'a result" where
  "refusal field value = Inl (Runtime_error (field @ '' is invalid. value: ['' @ value @ ''] Hex: ['' @
     concat (map (\<lambda>c. hex_of_byte (of_char c) @ '' '') value) @ '']''))"

lemma code_less_256: "code c < 256"
  by (simp add: code_def)

lemma in_points: "hi < 256 \<Longrightarrow> c \<in> code_points lo hi \<longleftrightarrow> in_range lo hi c"
  by (auto simp: in_range_def code_points_def code_char_of image_iff code_def intro!: bexI [of _ "of_char c"])

lemma alnum_dash_letters: "alnum_dash c \<longleftrightarrow> c \<in> name_letters"
proof -
  have letters: "''ABCDEFGHIJKLMNOPQRSTUVWXYZabcdefghijklmnopqrstuvwxyz0123456789-'' =
      map char_of ([65..<Suc 90] @ [97..<Suc 122] @ [48..<Suc 57] @ [45..<Suc 45])" by code_simp
  have all: "name_letters = code_points 65 90 \<union> code_points 97 122 \<union> code_points 48 57 \<union> code_points 45 45"
    unfolding name_letters_def letters code_points_def set_map set_append image_Un set_upt
      atLeastLessThanSuc_atLeastAtMost Un_assoc ..
  have "code c = 45 \<longleftrightarrow> in_range 45 45 c" unfolding in_range_def by linarith
  then show ?thesis unfolding all alnum_dash_def Un_iff by (simp add: in_points)
qed

lemma valid_words:
  "valid_username s \<longleftrightarrow> s \<in> words_over name_letters 20"
  "valid_channel s \<longleftrightarrow> s \<in> words_over (insert CHR ''.'' name_letters) 20"
  "valid_secret s \<longleftrightarrow> s \<in> words_over name_letters 128"
  "valid_name s \<longleftrightarrow> s \<in> words_over (code_points 33 126) 20"
  "valid_content s \<longleftrightarrow> s \<in> words_over (code_points 32 126) 1400"
proof -
  have "code c = 46 \<longleftrightarrow> c = CHR ''.''" for c using code_eq_iff [of c "CHR ''.''"] by (simp add: code_def)
  then show "valid_channel s \<longleftrightarrow> s \<in> words_over (insert CHR ''.'' name_letters) 20"
    by (auto simp: valid_defs words_over_def list_all_iff alnum_dash_letters Suc_le_eq)
qed (auto simp: valid_defs words_over_def list_all_iff alnum_dash_letters in_points Suc_le_eq)

lemma hex_digit_nth: "n < 16 \<Longrightarrow> hex_digit n = ''0123456789abcdef'' ! n"
proof -
  have digits: "''0123456789abcdef'' = map hex_digit [0..<16]" by code_simp
  show "n < 16 \<Longrightarrow> ?thesis" unfolding digits by simp
qed

lemma hexStream_bytes: "hexStream s = concat (map (\<lambda>c. hex_of_byte (of_char c) @ '' '') s)"
proof -
  have "show_hex (code c) = hex_of_byte (of_char c)" for c
    using code_less_256 [of c] hex_digit_nth [of "code c div 16"] hex_digit_nth [of "code c mod 16"]
      hex_digit_nth [of "code c"]
    by (simp add: show_hex_def hex_of_byte_def code_def less_mult_imp_div_less)
  then show ?thesis by (simp add: hexStream_def)
qed

text \<open>
  C25. Each field validator accepts exactly the strings of its alphabet and length bounds
  (1 to 20, 128 or 1400 characters): letters, digits and the hyphen for a user name and a
  secret, the dot besides for a channel, the visible ASCII characters for a display name, and
  the blank besides for a text. It rejects every other string with a \<open>runtime_error\<close> that
  names the field, quotes the value and lists its bytes in hexadecimal; a rejected channel
  name is reported as a user name.
\<close>

theorem validators_exact:
  "validateUsername s = (if s \<in> words_over name_letters 20 then Inr () else refusal ''Username'' s)
   \<and> validateChannelID s =
       (if s \<in> words_over (insert CHR ''.'' name_letters) 20 then Inr () else refusal ''Username'' s)
   \<and> validateSecret s = (if s \<in> words_over name_letters 128 then Inr () else refusal ''Secret'' s)
   \<and> validateDisplayName s =
       (if s \<in> words_over (code_points 33 126) 20 then Inr () else refusal ''DisplayName'' s)
   \<and> validateMessageContent s =
       (if s \<in> words_over (code_points 32 126) 1400 then Inr () else refusal ''MessageContent'' s)"
  by (simp add: validators_eq rejection_def refusal_def hexStream_bytes flip: valid_words)

end
