(* ===== verification/Serializer.thy ===== *)
theory Serializer
  imports Messages
begin

text \<open>
  The class \<open>MailSerializer\<close> of \<open>mail-box.h\<close>. \<open>buffer\<close> is the member vector, cleared at the
  start of each call; \<open>isUDP\<close> the member flag. The private overloads of \<open>serialize\<close> for
  \<open>uint16_t\<close> and \<open>std::string\<close> append to the buffer, \<open>visit\<close> is the overloaded call
  operator and \<open>serialize\<close> the public function. An \<open>int\<close> argument of the \<open>uint16_t\<close>
  overload is narrowed, and so is the \<open>bool\<close> of a REPLY.
\<close>

definition serialize_uint16 :: "bool \<Rightarrow> u16 \<Rightarrow> string \<Rightarrow> string" where
  "serialize_uint16 isUDP value buffer =
     (if isUDP then buffer @ [hi_byte value, lo_byte value] else buffer)"

definition serialize_string :: "bool \<Rightarrow> string \<Rightarrow> string \<Rightarrow> string" where
  "serialize_string isUDP str buffer = buffer @ str @ (if isUDP then [NUL] else [SP])"

definition insert_text :: "bool \<Rightarrow> string \<Rightarrow> string \<Rightarrow> string" where
  "insert_text isUDP str buffer = (if \<not> isUDP then buffer @ str else buffer)"

fun visit :: "bool \<Rightarrow> MessageData \<Rightarrow> string \<Rightarrow> string" where
  "visit isUDP (ConfirmMessage ref) buffer = serialize_uint16 isUDP (word_of_int ref) buffer"
| "visit isUDP (UnknownMessage mid) buffer = serialize_uint16 isUDP (word_of_int mid) buffer"
| "visit isUDP (AuthMessage mid username displayName secret) buffer =
     (let b1 = serialize_uint16 isUDP mid buffer;
          b2 = serialize_string isUDP username b1;
          b3 = insert_text isUDP ''AS '' b2;
          b4 = serialize_string isUDP displayName b3;
          b5 = insert_text isUDP ''USING '' b4
      in serialize_string isUDP secret b5)"
| "visit isUDP (JoinMessage mid channelID displayName) buffer =
     (let b1 = serialize_uint16 isUDP (word_of_int mid) buffer;
          b2 = serialize_string isUDP channelID b1;
          b3 = insert_text isUDP ''AS '' b2
      in serialize_string isUDP displayName b3)"
| "visit isUDP (ErrorMessage mid displayName messageContent) buffer =
     (let b1 = insert_text isUDP ''FROM '' buffer;
          b2 = serialize_uint16 isUDP (word_of_int mid) b1;
          b3 = serialize_string isUDP displayName b2;
          b4 = insert_text isUDP ''IS '' b3
      in serialize_string isUDP messageContent b4)"
| "visit isUDP (ByeMessage mid) buffer = serialize_uint16 isUDP (word_of_int mid) buffer"
| "visit isUDP (TextMessage toSend mid displayName messageContent) buffer =
     (let b1 = insert_text isUDP ''FROM '' buffer;
          b2 = serialize_uint16 isUDP (word_of_int mid) b1;
          b3 = serialize_string isUDP displayName b2;
          b4 = insert_text isUDP ''IS '' b3
      in serialize_string isUDP messageContent b4)"
| "visit isUDP (ReplyMessage mid result refMessageID messageContent) buffer =
     (let b1 = serialize_uint16 isUDP (word_of_int mid) buffer;
          b2 = serialize_uint16 isUDP (of_bool result) b1;
          b3 = insert_text isUDP (if result then ''OK '' else ''NOK '') b2;
          b4 = insert_text isUDP ''IS '' b3;
          b5 = serialize_uint16 isUDP (word_of_int refMessageID) b4
      in serialize_string isUDP messageContent b5)"

fun type_text :: "MessageType \<Rightarrow> string" where
  "type_text CONFIRM = ''CONFIRM ''"
| "type_text AUTH = ''AUTH ''"
| "type_text JOIN = ''JOIN ''"
| "type_text ERR = ''ERR ''"
| "type_text BYE = ''BYE ''"
| "type_text MSG = ''MSG ''"
| "type_text REPLY = ''REPLY ''"
| "type_text UNKNOWN = ''ERR ''"

text \<open>
  The bytes of a mail whose type is known. The TCP form always ends in a blank before the
  last step (the one of the type text or of the last field), which \<open>butlast\<close> removes.
\<close>

definition wire :: "bool \<Rightarrow> MessageType \<Rightarrow> MessageData \<Rightarrow> string" where
  "wire isUDP t d =
     (let buffer = (if isUDP then [char_of (type_code t)] else type_text t);
          buffer = visit isUDP d buffer
      in if \<not> isUDP then butlast buffer @ [CR, LF] else buffer)"

definition serialize :: "bool \<Rightarrow> Mail \<Rightarrow> string result" where
  "serialize isUDP mail =
     (case mtype mail of
        None \<Rightarrow> Inl (Undefined Uninitialised)
      | Some t \<Rightarrow> Inr (wire isUDP t (mdata mail)))"

lemmas put_defs = serialize_uint16_def serialize_string_def insert_text_def

subsection \<open>The wire formats\<close>

definition id_bytes :: "int \<Rightarrow> string" where
  "id_bytes n = [hi_byte (word_of_int n), lo_byte (word_of_int n)]"

lemma wire_udp:
  "wire True t (ConfirmMessage n) = char_of (type_code t) # id_bytes n"
  "wire True t (UnknownMessage n) = char_of (type_code t) # id_bytes n"
  "wire True t (ByeMessage n) = char_of (type_code t) # id_bytes n"
  "wire True t (AuthMessage w u d s) =
     char_of (type_code t) # id_bytes (uint w) @ u @ NUL # d @ NUL # s @ [NUL]"
  "wire True t (JoinMessage n c d) =
     char_of (type_code t) # id_bytes n @ c @ NUL # d @ [NUL]"
  "wire True t (ErrorMessage n d m) =
     char_of (type_code t) # id_bytes n @ d @ NUL # m @ [NUL]"
  "wire True t (TextMessage b n d m) =
     char_of (type_code t) # id_bytes n @ d @ NUL # m @ [NUL]"
  "wire True t (ReplyMessage n r ref m) =
     char_of (type_code t) # id_bytes n @ id_bytes (of_bool r) @ id_bytes ref @ m @ [NUL]"
  by (simp_all add: wire_def put_defs Let_def id_bytes_def)

lemma wire_tcp:
  "wire False t (ConfirmMessage n) = butlast (type_text t) @ [CR, LF]"
  "wire False t (UnknownMessage n) = butlast (type_text t) @ [CR, LF]"
  "wire False t (ByeMessage n) = butlast (type_text t) @ [CR, LF]"
  "wire False t (AuthMessage w u d s) =
     type_text t @ u @ '' AS '' @ d @ '' USING '' @ s @ [CR, LF]"
  "wire False t (JoinMessage n c d) = type_text t @ c @ '' AS '' @ d @ [CR, LF]"
  "wire False t (ErrorMessage n d m) = type_text t @ ''FROM '' @ d @ '' IS '' @ m @ [CR, LF]"
  "wire False t (TextMessage b n d m) = type_text t @ ''FROM '' @ d @ '' IS '' @ m @ [CR, LF]"
  "wire False t (ReplyMessage n r ref m) =
     type_text t @ (if r then ''OK'' else ''NOK'') @ '' IS '' @ m @ [CR, LF]"
  by (simp_all add: wire_def put_defs Let_def butlast_append)

lemma type_bytes:
  "char_of (type_code CONFIRM) = CHR 0x00" "char_of (type_code REPLY) = CHR 0x01"
  "char_of (type_code AUTH) = CHR 0x02" "char_of (type_code JOIN) = CHR 0x03"
  "char_of (type_code MSG) = CHR 0x04" "char_of (type_code ERR) = CHR 0xFE"
  "char_of (type_code BYE) = CHR 0xFF"
  by code_simp+

lemma set_type_text: "c \<in> set (type_text t) \<Longrightarrow> in_range 32 126 c"
  by (cases t) (auto simp: in_range_def code_def)

text \<open>The bytes of a valid message over TCP hold no NUL.\<close>

lemma wire_tcp_no_NUL: "valid_data d \<Longrightarrow> NUL \<notin> set (wire False t d)"
proof -
  have tt: "NUL \<notin> set (type_text t)" "NUL \<notin> set (butlast (type_text t))"
    using set_type_text [of NUL t] by (auto simp: in_range_def code_def dest: in_set_butlastD)
  assume "valid_data d"
  then show ?thesis
    using tt by (cases d) (auto simp: wire_tcp dest!: valid_name_range valid_content_range range_no_NUL)
qed

subsection \<open>Properties\<close>

text \<open>Network byte order, in arithmetic: the high byte of a 16-bit value, then the low one.\<close>

definition big_endian :: "int \<Rightarrow> string" where
  "big_endian n = [char_of (nat (n div 256)), char_of (nat (n mod 256))]"

lemma uint_u16: "uint (word_of_int n :: u16) = n mod 65536"
  by (simp add: uint_word_of_int)

lemma unat_u16: "unat (word_of_int n :: u16) = nat (n mod 65536)"
  by (simp only: uint_u16 flip: nat_uint_eq)

lemma id_bytes_big_endian: "id_bytes n = big_endian (n mod 65536)"
proof -
  let ?m = "n mod 65536"
  have "unat (drop_bit 8 (word_of_int n :: u16)) = nat ?m div 256"
    unfolding unat_drop_bit_eq unat_u16 by (simp add: drop_bit_eq_div)
  moreover have "nat ?m div 256 = nat (?m div 256)" by (simp add: nat_div_distrib)
  moreover have "char_of (nat ?m) = (char_of (nat ?m mod 256) :: char)" by simp
  moreover have "nat ?m mod 256 = nat (?m mod 256)" by (simp add: nat_mod_distrib)
  ultimately show ?thesis by (simp only: id_bytes_def big_endian_def hi_byte_def lo_byte_def unat_u16)
qed

text \<open>
  C17. The layout of every message type over UDP: the type byte of the protocol, the identifier
  in network byte order, modulo 65536, and the strings, each closed by a NUL. The layout of
  a REPLY is not the one of the protocol: its result takes two bytes instead of one, before
  the identifier it refers to.
\<close>

theorem serialize_udp_layout:
  "serialize True \<lparr>mtype = Some CONFIRM, mdata = ConfirmMessage n, addToMailQueue = q, sigint = g\<rparr> =
     Inr (CHR 0x00 # big_endian (n mod 65536))
   \<and> serialize True \<lparr>mtype = Some REPLY, mdata = ReplyMessage n r ref m, addToMailQueue = q, sigint = g\<rparr> =
     Inr (CHR 0x01 # big_endian (n mod 65536) @ [CHR 0x00, if r then CHR 0x01 else CHR 0x00] @
       big_endian (ref mod 65536) @ m @ [CHR 0x00])
   \<and> serialize True \<lparr>mtype = Some AUTH, mdata = AuthMessage w u d s, addToMailQueue = q, sigint = g\<rparr> =
     Inr (CHR 0x02 # big_endian (uint w) @ u @ CHR 0x00 # d @ CHR 0x00 # s @ [CHR 0x00])
   \<and> serialize True \<lparr>mtype = Some JOIN, mdata = JoinMessage n c d, addToMailQueue = q, sigint = g\<rparr> =
     Inr (CHR 0x03 # big_endian (n mod 65536) @ c @ CHR 0x00 # d @ [CHR 0x00])
   \<and> serialize True \<lparr>mtype = Some MSG, mdata = TextMessage b n d m, addToMailQueue = q, sigint = g\<rparr> =
     Inr (CHR 0x04 # big_endian (n mod 65536) @ d @ CHR 0x00 # m @ [CHR 0x00])
   \<and> serialize True \<lparr>mtype = Some UNKNOWN, mdata = UnknownMessage n, addToMailQueue = q, sigint = g\<rparr> =
     Inr (CHR 0x05 # big_endian (n mod 65536))
   \<and> serialize True \<lparr>mtype = Some ERR, mdata = ErrorMessage n d m, addToMailQueue = q, sigint = g\<rparr> =
     Inr (CHR 0xFE # big_endian (n mod 65536) @ d @ CHR 0x00 # m @ [CHR 0x00])
   \<and> serialize True \<lparr>mtype = Some BYE, mdata = ByeMessage n, addToMailQueue = q, sigint = g\<rparr> =
     Inr (CHR 0xFF # big_endian (n mod 65536))"
proof -
  have "uint w mod 65536 = uint w" using uint_u16 [of "uint w"] by simp
  moreover have "id_bytes (of_bool r) = [CHR 0x00, if r then CHR 0x01 else CHR 0x00]"
    by (cases r) (simp_all add: id_bytes_big_endian big_endian_def type_bytes [unfolded type_code.simps, simplified])
  moreover have "char_of (type_code UNKNOWN) = CHR 0x05" by code_simp
  ultimately show ?thesis
    by (simp del: type_code.simps add: serialize_def wire_udp type_bytes id_bytes_big_endian)
qed


end
