(* ===== verification/Streams.thy ===== *)
theory Streams
  imports Prelude
begin

text \<open>
  The parts of \<open>std::istringstream\<close> that the program reads its text with. A stream is the
  characters that are left; a read that fails leaves its (empty) target and the exhausted
  stream as they are, which is what the functions below return on an exhausted stream.
\<close>

named_theorems stream_simps "reading tokens and lines"

text \<open>\<open>iss >> word\<close>: skip white space, then take characters up to white space.\<close>

definition read_word :: "string \<Rightarrow> string \<times> string" where
  "read_word s =
     (let t = dropWhile isspace s
      in (takeWhile (\<lambda>c. \<not> isspace c) t, dropWhile (\<lambda>c. \<not> isspace c) t))"

text \<open>\<open>std::getline(iss, line)\<close>: up to the next line feed, which is consumed.\<close>

definition read_line :: "string \<Rightarrow> string \<times> string" where
  "read_line s = (takeWhile (\<lambda>c. c \<noteq> LF) s, drop 1 (dropWhile (\<lambda>c. c \<noteq> LF) s))"

text \<open>\<open>std::string(buffer)\<close>: the bytes before the first NUL, which must be in the buffer.\<close>

definition c_str :: "string \<Rightarrow> string result" where
  "c_str buf = (if NUL \<in> set buf then Inr (takeWhile (\<lambda>c. c \<noteq> NUL) buf)
                else Inl (Undefined Out_of_bounds))"

text \<open>Words as the readers deliver them: not empty and free of white space.\<close>

definition token :: "string \<Rightarrow> bool" where
  "token w \<longleftrightarrow> w \<noteq> [] \<and> list_all (\<lambda>c. \<not> isspace c) w"

lemma takeWhile_all: "list_all P xs \<Longrightarrow> takeWhile P (xs @ ys) = xs @ takeWhile P ys"
  by (induction xs) auto

lemma dropWhile_all: "list_all P xs \<Longrightarrow> dropWhile P (xs @ ys) = dropWhile P ys"
  by (induction xs) auto

lemma token_hd: "token w \<Longrightarrow> dropWhile isspace (w @ s) = w @ s"
  by (cases w) (auto simp: token_def)

lemma read_word_skip [stream_simps]: "isspace c \<Longrightarrow> read_word (c # s) = read_word s"
  by (simp add: read_word_def)

lemma read_word_token [stream_simps]:
  "token w \<Longrightarrow> isspace c \<Longrightarrow> read_word (w @ c # s) = (w, c # s)"
  unfolding read_word_def Let_def token_hd
  by (simp add: token_def takeWhile_all dropWhile_all)

lemma read_word_token_end [stream_simps]: "token w \<Longrightarrow> read_word w = (w, [])"
proof -
  assume t: "token w"
  then have "dropWhile isspace w = w" using token_hd [of w "[]"] by simp
  moreover have "takeWhile (\<lambda>c. \<not> isspace c) w = w" "dropWhile (\<lambda>c. \<not> isspace c) w = []"
    using t takeWhile_all [of "\<lambda>c. \<not> isspace c" w "[]"]
      dropWhile_all [of "\<lambda>c. \<not> isspace c" w "[]"] by (auto simp: token_def)
  ultimately show ?thesis by (simp add: read_word_def)
qed

lemma read_word_Nil [stream_simps]: "read_word [] = ([], [])"
  by (simp add: read_word_def)

lemma read_word_free: "c \<in> set (fst (read_word s)) \<Longrightarrow> \<not> isspace c"
  by (auto simp: read_word_def Let_def dest: set_takeWhileD)

lemma takeWhile_upto: "c \<notin> set s \<Longrightarrow> takeWhile (\<lambda>x. x \<noteq> c) (s @ c # rest) = s"
  by (induction s) auto

lemma dropWhile_upto: "c \<notin> set s \<Longrightarrow> dropWhile (\<lambda>x. x \<noteq> c) (s @ c # rest) = c # rest"
  by (induction s) auto

lemma read_line_append [stream_simps]:
  "LF \<notin> set s \<Longrightarrow> read_line (s @ LF # rest) = (s, rest)"
  by (simp add: read_line_def takeWhile_upto dropWhile_upto)

lemma read_line_whole: "LF \<notin> set s \<Longrightarrow> read_line s = (s, [])"
  by (induction s) (auto simp: read_line_def)

lemma c_str_append [stream_simps]:
  "NUL \<notin> set s \<Longrightarrow> c_str (s @ NUL # rest) = Inr s"
  by (simp add: c_str_def takeWhile_upto)

lemma c_str_unterminated: "NUL \<notin> set s \<Longrightarrow> c_str s = Inl (Undefined Out_of_bounds)"
  by (simp add: c_str_def)

lemma c_str_Inr: "c_str buf = Inr s \<Longrightarrow> NUL \<notin> set s"
  by (auto simp: c_str_def dest: set_takeWhileD split: if_splits)

subsection \<open>Codecs\<close>

text \<open>
  The contract between a serialiser and a reader that works on a NUL-terminated buffer: a
  good message is read back from its bytes, whatever follows them in the buffer. Distinct
  good messages then have distinct bytes, and none is a prefix another reader could stop at.
\<close>

locale wire_codec =
  fixes good :: "'m \<Rightarrow> bool"
    and enc :: "'m \<Rightarrow> string"
    and dec :: "string \<Rightarrow> 'm result"
  assumes dec_enc: "good m \<Longrightarrow> dec (enc m @ NUL # pad) = Inr m"
begin

lemma enc_prefix_free: "good m \<Longrightarrow> good m' \<Longrightarrow> enc m @ NUL # p = enc m' @ NUL # p' \<Longrightarrow> m = m'"
  using dec_enc [of m p] dec_enc [of m' p'] by simp

lemma enc_inj: "good m \<Longrightarrow> good m' \<Longrightarrow> enc m = enc m' \<Longrightarrow> m = m'"
  using enc_prefix_free [of m m' "[]" "[]"] by simp

lemma dec_total: "good m \<Longrightarrow> \<exists>m'. dec (enc m @ NUL # pad) = Inr m' \<and> good m'"
  by (simp add: dec_enc)

end

end
