(* ===== verification/Udp_Reader.thy ===== *)
theory Udp_Reader
  imports Serializer Streams
begin

text \<open>
  \<open>MailBox::writeUDPMail\<close> and its helpers \<open>readUInt16\<close> and \<open>readString\<close>. The pointer
  \<open>current\<close> into the receive buffer is the list of bytes from it to the end of the buffer; a
  read at the end of the buffer is undefined behaviour.
\<close>

text \<open>
  \<open>(*(*buffer + 1)) | (**buffer << 8)\<close>: both operands are \<open>char\<close>, promoted to \<open>int\<close> with
  their sign, and the \<open>int\<close> is narrowed to \<open>uint16_t\<close>.
\<close>

definition combine :: "char \<Rightarrow> char \<Rightarrow> u16" where
  "combine hi lo = ucast (schar lo OR push_bit 8 (schar hi))"

fun readUInt16 :: "string \<Rightarrow> (u16 \<times> string) result" where
  "readUInt16 (hi # lo # rest) = Inr (combine hi lo, rest)"
| "readUInt16 _ = Inl (Undefined Out_of_bounds)"

fun readString :: "string \<Rightarrow> (string \<times> string) result" where
  "readString [] = Inl (Undefined Out_of_bounds)"
| "readString (c # rest) =
     (if c = NUL then Inr ([], rest)
      else rbind (readString rest) (\<lambda>(s, rest'). Inr (c # s, rest')))"

text \<open>
  The cast of the first byte to \<open>MessageType\<close>, with the values that are no enumerator (and
  0x05) sent to \<open>UNKNOWN\<close>, which is what the \<open>default\<close> branch then stores.
\<close>

definition type_of_byte :: "char \<Rightarrow> MessageType" where
  "type_of_byte c =
     (if code c = 0x02 then AUTH else if code c = 0x03 then JOIN
      else if code c = 0xFE then ERR else if code c = 0xFF then BYE
      else if code c = 0x04 then MSG else if code c = 0x01 then REPLY
      else if code c = 0x00 then CONFIRM else UNKNOWN)"

definition fill :: "Mail \<Rightarrow> MessageType \<Rightarrow> bool \<Rightarrow> MessageData \<Rightarrow> Mail" where
  "fill mail t queue d = mail\<lparr>mtype := Some t, mdata := d, addToMailQueue := queue\<rparr>"

definition writeUDPMail ::
    "ProtocolType \<Rightarrow> string \<Rightarrow> Mail \<Rightarrow> (console list \<times> bool \<times> Mail) result" where
  "writeUDPMail delivery_service buffer mail =
     (case buffer of [] \<Rightarrow> Inl (Undefined Out_of_bounds) | c # current \<Rightarrow>
      (case type_of_byte c of
         CONFIRM \<Rightarrow>
           rbind (readUInt16 current) (\<lambda>(ref, _).
           Inr ([], True, fill mail CONFIRM False (ConfirmMessage (uint ref))))
       | BYE \<Rightarrow>
           rbind (readUInt16 current) (\<lambda>(msgID, _).
           Inr ([], True, fill mail BYE (delivery_service \<noteq> TCP) (ByeMessage (uint msgID))))
       | ERR \<Rightarrow>
           rbind (readUInt16 current) (\<lambda>(msgID, current).
           rbind (readString current) (\<lambda>(dN, current).
           rbind (readString current) (\<lambda>(mC, _).
           rbind (mkErrorMessage (uint msgID) dN mC) (\<lambda>d.
           Inr ([], True, fill mail ERR True d)))))
       | REPLY \<Rightarrow>
           rbind (readUInt16 current) (\<lambda>(msgID, current).
           (case current of [] \<Rightarrow> Inl (Undefined Out_of_bounds) | result # current \<Rightarrow>
            rbind (readUInt16 current) (\<lambda>(refID, current).
            rbind (readString current) (\<lambda>(mC, _).
            rbind (mkReplyMessage (uint msgID) (result \<noteq> NUL) (uint refID) mC) (\<lambda>d.
            Inr ([], True, fill mail REPLY True d))))))
       | AUTH \<Rightarrow>
           rbind (readUInt16 current) (\<lambda>(msgID, current).
           rbind (readString current) (\<lambda>(username, current).
           rbind (readString current) (\<lambda>(dN, current).
           rbind (readString current) (\<lambda>(secret, _).
           rbind (mkAuthMessage msgID username dN secret) (\<lambda>d.
           Inr ([], True, fill mail AUTH True d))))))
       | JOIN \<Rightarrow>
           rbind (readUInt16 current) (\<lambda>(msgID, current).
           rbind (readString current) (\<lambda>(channelID, current).
           rbind (readString current) (\<lambda>(dN, _).
           rbind (mkJoinMessage (uint msgID) channelID dN) (\<lambda>d.
           Inr ([], True, fill mail JOIN True d)))))
       | MSG \<Rightarrow>
           rbind (readUInt16 current) (\<lambda>(msgID, current).
           rbind (readString current) (\<lambda>(disN, current).
           rbind (readString current) (\<lambda>(mC, _).
           rbind (mkTextMessage (uint msgID) disN mC) (\<lambda>d.
           Inr ([], True, fill mail MSG True d)))))
       | UNKNOWN \<Rightarrow>
           rbind (readUInt16 current) (\<lambda>(msgID, _).
           Inr ([Stderr (''ERR: Unknown message type.'' @ [LF])], True,
                fill mail UNKNOWN True (UnknownMessage (uint msgID))))))"

subsection \<open>Reading back what was written\<close>

text \<open>
  The value that \<open>readUInt16\<close> gives for the two bytes of \<open>v\<close>: \<open>v\<close> itself when the low
  byte is below 0x80, and \<open>v\<close> with all bits of the high byte set otherwise.
\<close>

definition reread :: "u16 \<Rightarrow> u16" where
  "reread v = (if bit v 7 then v OR 0xFF00 else v)"

lemma combine_bytes: "combine (hi_byte v) (lo_byte v) = reread v"
proof (rule bit_word_eqI)
  fix n assume "n < LENGTH(16)"
  then show "bit (combine (hi_byte v) (lo_byte v)) n = bit (reread v) n"
    using below_16_cases [of n]
    by (auto simp: combine_def reread_def schar_def char_simps bit_simps min_def bit_0xFF00)
qed

lemma readUInt16_id_bytes [stream_simps]:
  "readUInt16 (id_bytes n @ rest) = Inr (reread (word_of_int n), rest)"
  by (simp add: id_bytes_def combine_bytes)

lemma readString_append [stream_simps]:
  "NUL \<notin> set s \<Longrightarrow> readString (s @ NUL # rest) = Inr (s, rest)"
  by (induction s) auto

lemma readString_Inr: "readString buf = Inr (s, rest) \<Longrightarrow> NUL \<notin> set s \<and> buf = s @ NUL # rest"
proof (induction buf arbitrary: s rest)
  case (Cons c buf)
  then show ?case by (fastforce simp: result_simps split: if_splits)
qed simp

lemma type_of_byte_code [simp]: "type_of_byte (char_of (type_code t)) = t"
  by (cases t) (simp_all add: type_of_byte_def char_simps)

lemma valid_no_NUL:
  "valid_username s \<Longrightarrow> NUL \<notin> set s"
  "valid_channel s \<Longrightarrow> NUL \<notin> set s"
  "valid_secret s \<Longrightarrow> NUL \<notin> set s"
  "valid_name s \<Longrightarrow> NUL \<notin> set s"
  "valid_content s \<Longrightarrow> NUL \<notin> set s"
  using range_no_NUL [OF valid_name_range(1)] range_no_NUL [OF valid_name_range(2)]
    range_no_NUL [OF valid_name_range(3)] range_no_NUL [OF valid_name_range(4)]
    range_no_NUL [OF valid_content_range] by simp_all

text \<open>The type a body belongs to, and the body the reader makes of it.\<close>

fun data_type :: "MessageData \<Rightarrow> MessageType" where
  "data_type (ConfirmMessage _) = CONFIRM"
| "data_type (AuthMessage _ _ _ _) = AUTH"
| "data_type (JoinMessage _ _ _) = JOIN"
| "data_type (ErrorMessage _ _ _) = ERR"
| "data_type (ByeMessage _) = BYE"
| "data_type (TextMessage _ _ _ _) = MSG"
| "data_type (ReplyMessage _ _ _ _) = REPLY"
| "data_type (UnknownMessage _) = UNKNOWN"

definition reread_int :: "int \<Rightarrow> int" where
  "reread_int n = uint (reread (word_of_int n))"

fun udp_image :: "MessageData \<Rightarrow> MessageData" where
  "udp_image (ConfirmMessage n) = ConfirmMessage (reread_int n)"
| "udp_image (AuthMessage w u d s) = AuthMessage (reread w) u d s"
| "udp_image (JoinMessage n c d) = JoinMessage (reread_int n) c d"
| "udp_image (ErrorMessage n d m) = ErrorMessage (reread_int n) d m"
| "udp_image (ByeMessage n) = ByeMessage (reread_int n)"
| "udp_image (TextMessage b n d m) = TextMessage False (reread_int n) d m"
| "udp_image (ReplyMessage n r ref m) = ReplyMessage (reread_int n) r (reread_int ref) m"
| "udp_image (UnknownMessage n) = UnknownMessage (reread_int n)"

text \<open>
  The datagram a server sends for a message: as \<open>wire\<close>, but for the one-byte result. There is no server
  in C++ in the repository; this is the format that \<open>writeUDPMail\<close> reads.
\<close>

definition server_datagram :: "MessageData \<Rightarrow> string" where
  "server_datagram d =
     (case d of
        ReplyMessage n r ref m \<Rightarrow>
          char_of (type_code REPLY) # id_bytes n @ (if r then CHR 0x01 else NUL) #
          id_bytes ref @ m @ [NUL]
      | _ \<Rightarrow> wire True (data_type d) d)"

lemma read_server_datagram:
  assumes "valid_data d" and "data_type d \<noteq> UNKNOWN"
  shows "writeUDPMail UDP (server_datagram d @ pad) mail =
    Inr ([], True, fill mail (data_type d) (data_type d \<noteq> CONFIRM) (udp_image d))"
  using assms
  by (cases d)
    (auto simp: server_datagram_def wire_udp writeUDPMail_def stream_simps valid_no_NUL
      reread_int_def type_of_byte_def char_simps)

subsection \<open>The UDP codec\<close>

definition udp_read :: "string \<Rightarrow> MessageData result" where
  "udp_read buffer = rbind (writeUDPMail UDP buffer default_Mail) (\<lambda>(_, _, m). Inr (mdata m))"

text \<open>Valid messages whose identifiers survive \<open>readUInt16\<close>.\<close>

definition udp_good :: "MessageData \<Rightarrow> bool" where
  "udp_good d \<longleftrightarrow> valid_data d \<and> data_type d \<noteq> UNKNOWN \<and> udp_image d = d"

interpretation udp_codec: wire_codec udp_good server_datagram udp_read
  by unfold_locales
    (simp add: udp_good_def udp_read_def read_server_datagram fill_def)

lemma reread_low: "\<not> bit v 7 \<Longrightarrow> reread v = v"
  by (simp add: reread_def)

lemma bit_reread: "n < 16 \<Longrightarrow> bit (reread v) n \<longleftrightarrow> bit v n \<or> 8 \<le> n \<and> bit v 7"
  using bit_0xFF00 [of n] by (auto simp: reread_def bit_or_iff)

lemma reread_idem [simp]: "reread (reread v) = reread v"
  by (rule bit_word_eqI) (auto simp: bit_reread)

text \<open>
  The values that the reader can produce: those that keep their identity, which are all
  but the ones with bit 7 set and some bit of the high byte clear.
\<close>

definition readable :: "u16 \<Rightarrow> bool" where
  "readable v \<longleftrightarrow> reread v = v"

lemma readable_iff: "readable v \<longleftrightarrow> (bit v 7 \<longrightarrow> (\<forall>n. 8 \<le> n \<and> n < 16 \<longrightarrow> bit v n))"
proof
  assume "readable v"
  then show "bit v 7 \<longrightarrow> (\<forall>n. 8 \<le> n \<and> n < 16 \<longrightarrow> bit v n)"
    using bit_reread [of _ v] by (auto simp: readable_def)
next
  assume *: "bit v 7 \<longrightarrow> (\<forall>n. 8 \<le> n \<and> n < 16 \<longrightarrow> bit v n)"
  have "reread v = v" by (rule bit_word_eqI) (use * in \<open>auto simp: bit_reread\<close>)
  then show "readable v" by (simp add: readable_def)
qed

lemma combine_readable: "readable (combine hi lo)"
  unfolding readable_iff
  by (auto simp: combine_def schar_def bit_simps min_def)

lemma readUInt16_readable: "readUInt16 buf = Inr (v, rest) \<Longrightarrow> readable v"
  by (cases buf rule: readUInt16.cases) (auto simp: combine_readable)

subsection \<open>Bounds\<close>

lemma readString_bound:
  "NUL \<in> set buf \<Longrightarrow> \<exists>s rest. readString buf = Inr (s, rest) \<and>
    count_list rest NUL + 1 = count_list buf NUL"
  by (induction buf) auto

lemma readString_count:
  "0 < count_list buf NUL \<Longrightarrow> \<exists>s rest. readString buf = Inr (s, rest) \<and>
    count_list rest NUL + 1 = count_list buf NUL"
  using readString_bound [of buf] count_notin by fastforce

lemma count_list_replicate: "count_list (replicate n c) c = n"
  by (induction n) auto

lemma mk_not_undefined:
  "mkAuthMessage w u d s \<noteq> Inl (Undefined e)" "mkJoinMessage n c d \<noteq> Inl (Undefined e)"
  "mkErrorMessage n d m \<noteq> Inl (Undefined e)" "mkTextMessage n d m \<noteq> Inl (Undefined e)"
  "mkReplyMessage n r ref m \<noteq> Inl (Undefined e)"
  by (auto simp: mk_defs validators_eq rejection_def)

lemma six_bytes: "6 \<le> length xs \<Longrightarrow> \<exists>a b c d e f r. xs = a # b # c # d # e # f # r"
  by (auto simp: numeral_eq_Suc Suc_le_length_iff)

text \<open>A buffer that holds three NULs after its sixth byte is read within its bounds.\<close>

lemma read_in_bounds:
  assumes "3 \<le> count_list r NUL"
  shows "writeUDPMail ds (c # b1 # b2 # b3 # b4 # b5 # r) mail \<noteq> Inl (Undefined Out_of_bounds)"
proof -
  let ?r = "b3 # b4 # b5 # r"
  have "0 < count_list r NUL" "3 \<le> count_list ?r NUL" using assms by auto
  then obtain s0 r0 s1 r1 where r0: "readString r = Inr (s0, r0)"
    and r1: "readString ?r = Inr (s1, r1)" "2 \<le> count_list r1 NUL"
    using readString_count [of r] readString_count [of ?r] by fastforce
  then obtain s2 r2 where r2: "readString r1 = Inr (s2, r2)" "1 \<le> count_list r2 NUL"
    using readString_count [of r1] by fastforce
  then obtain s3 r3 where r3: "readString r2 = Inr (s3, r3)"
    using readString_count [of r2] by fastforce
  note strings = r0 r1(1) r2(1) r3
  show ?thesis
    by (cases "type_of_byte c")
      (simp_all del: readString.simps add: writeUDPMail_def strings rbind_eq_Inl mk_not_undefined)
qed

subsection \<open>Properties\<close>

text \<open>
  C15. Over UDP the client reads back what it serialises: a valid message of any type but
  REPLY, whose identifier is one \<open>readUInt16\<close> can produce, survives the way through the
  serialiser and \<open>writeUDPMail\<close> unchanged, whatever follows it in the receive buffer.
\<close>

theorem udp_roundtrip:
  assumes "valid_data (mdata m)" and "mtype m = Some (data_type (mdata m))"
    and "data_type (mdata m) \<notin> {UNKNOWN, REPLY}" and "udp_image (mdata m) = mdata m"
  shows "\<exists>bytes. serialize True m = Inr bytes \<and>
    writeUDPMail UDP (bytes @ pad) default_Mail =
      Inr ([], True, fill default_Mail (data_type (mdata m)) (data_type (mdata m) \<noteq> CONFIRM) (mdata m))"
proof -
  have "wire True (data_type (mdata m)) (mdata m) = server_datagram (mdata m)"
    using assms(3) by (cases "mdata m") (simp_all add: server_datagram_def)
  then show ?thesis
    using assms read_server_datagram [of "mdata m" pad default_Mail] by (simp add: serialize_def)
qed

theorem udp_roundtrip_witness:
  "\<exists>bytes. serialize True (fill default_Mail MSG True (TextMessage False 5 ''bob'' ''hi'')) = Inr bytes \<and>
    writeUDPMail UDP (bytes @ []) default_Mail =
      Inr ([], True, fill default_Mail MSG True (TextMessage False 5 ''bob'' ''hi''))"
proof -
  have r: "reread_int 5 = 5" unfolding reread_int_def reread_def by code_simp
  show ?thesis
    using udp_roundtrip [of "fill default_Mail MSG True (TextMessage False 5 ''bob'' ''hi'')" "[]"]
    by (simp add: fill_def valid_name_def valid_content_def in_range_def code_def r)
qed

text \<open>
  C30. \<open>readUInt16\<close> is not the inverse of the network byte order: of the two bytes of a
  value it makes that value when the low byte is below 0x80, and the value with every bit of
  the high byte set otherwise, because \<open>char\<close> is signed.
\<close>

theorem readUInt16_sign_extends:
  "readUInt16 (hi_byte v # lo_byte v # rest) = Inr (if bit v 7 then v OR 0xFF00 else v, rest)"
  by (simp add: combine_bytes reread_def)

text \<open>
  Consequently an identifier whose low byte is 0x80 or more is never read unless its
  high byte is 0xFF: nothing a server can send reads as 128.
\<close>

theorem identifiers_never_read:
  assumes "readUInt16 buf = Inr (v, rest)" and "bit v 7"
  shows "\<forall>n. 8 \<le> n \<and> n < 16 \<longrightarrow> bit v n"
  using readUInt16_readable [OF assms(1)] assms(2) by (simp add: readable_iff)

theorem identifiers_never_read_witness:
  "readUInt16 [NUL, CHR 0x80] = Inr (0xFF80, []) \<and> (\<forall>n. 8 \<le> n \<and> n < 16 \<longrightarrow> bit (0xFF80 :: u16) n)"
proof -
  have r: "readUInt16 [NUL, CHR 0x80] = Inr (0xFF80, [])" by code_simp
  moreover have "bit (0xFF80 :: u16) 7" by code_simp
  ultimately show ?thesis using identifiers_never_read [OF r] by simp
qed

text \<open>
  C34. Reading stays inside the receive buffer for every datagram that leaves three of its
  1024 bytes unused: the reader then ends in a mail or in a \<open>runtime_error\<close>, never in an
  out-of-bounds read.
\<close>

theorem udp_read_in_bounds:
  assumes "length data + 3 \<le> 1024"
  shows "writeUDPMail ds (data @ replicate (1024 - length data) NUL) mail \<noteq> Inl (Undefined Out_of_bounds)"
proof -
  let ?buf = "data @ replicate (1024 - length data) NUL"
  have "length ?buf = 1024" using assms by simp
  then obtain c b1 b2 b3 b4 b5 r where buf: "?buf = c # b1 # b2 # b3 # b4 # b5 # r"
    using six_bytes [of ?buf] by auto
  have "r = drop 6 ?buf" by (simp add: buf)
  also have "\<dots> = drop 6 data @ replicate (1024 - length data - (6 - length data)) NUL" by simp
  finally have "count_list r NUL =
      count_list (drop 6 data) NUL + (1024 - length data - (6 - length data))"
    by (simp only: count_list_append count_list_replicate)
  then have "3 \<le> count_list r NUL" using assms by linarith
  then show ?thesis using read_in_bounds [of r ds c b1 b2 b3 b4 b5 mail] by (simp add: buf)
qed

theorem udp_read_in_bounds_witness:
  "writeUDPMail UDP ([CHR 0x04, NUL] @ replicate (1024 - length [CHR 0x04, NUL]) NUL) default_Mail
    \<noteq> Inl (Undefined Out_of_bounds)"
  by (rule udp_read_in_bounds) simp

text \<open>
  The serialised form of a REPLY is not one the client could read: the result takes two
  bytes where \<open>writeUDPMail\<close> takes one, so a successful reply never reads back as such.
\<close>

theorem udp_reply_not_reread:
  "udp_read (wire True REPLY (ReplyMessage n True ref c) @ pad) \<noteq> Inr (ReplyMessage n' True ref' c')"
proof -
  have "(of_bool True :: int) = 1" by simp
  moreover have "id_bytes 1 = [NUL, CHR 0x01]" by code_simp
  ultimately show ?thesis
    by (auto simp: udp_read_def wire_udp writeUDPMail_def rbind_eq_Inr stream_simps result_simps
        fill_def type_of_byte_def code_def)
qed

end
