(* ===== verification/Tcp_Reader.thy ===== *)
theory Tcp_Reader
  imports Udp_Reader
begin

text \<open>
  \<open>MailBox::writeTCPMail\<close>: a line of text, read word by word from a string stream. The
  sequence number of the mailbox goes into the message as its identifier. The fields are
  validated (by the message's constructor) before the keywords are checked.
\<close>

definition trim_content :: "string \<Rightarrow> string" where
  "trim_content mC =
     (let mC = (if mC \<noteq> [] \<and> last mC = CR then butlast mC else mC)
      in if mC \<noteq> [] \<and> hd mC = SP then drop 1 mC else mC)"

text \<open>The branches for the types that carry fields, each on the rest of the stream.\<close>

definition tcp_ERR :: "u16 \<Rightarrow> string \<Rightarrow> Mail \<Rightarrow> (bool \<times> Mail) result" where
  "tcp_ERR seq iss mail =
     (let (from, iss) = read_word iss; (dN, iss) = read_word iss;
          (is, iss) = read_word iss; mC = trim_content (fst (read_line iss))
      in rbind (mkErrorMessage (uint seq) dN mC) (\<lambda>errMsg.
         if from \<noteq> ''FROM'' \<or> is \<noteq> ''IS'' \<or> mC = [] then Inr (False, mail)
         else Inr (True, fill mail ERR True errMsg)))"

definition tcp_REPLY :: "u16 \<Rightarrow> string \<Rightarrow> Mail \<Rightarrow> (bool \<times> Mail) result" where
  "tcp_REPLY seq iss mail =
     (let (response, iss) = read_word iss; (is, iss) = read_word iss;
          mC = trim_content (fst (read_line iss))
      in rbind (mkReplyMessage (uint seq) (response = ''OK'') (-1) mC) (\<lambda>replyMsg.
         if (response \<noteq> ''OK'' \<and> response \<noteq> ''NOK'') \<or> is \<noteq> ''IS'' then Inr (False, mail)
         else Inr (True, fill mail REPLY True replyMsg)))"

definition tcp_AUTH :: "u16 \<Rightarrow> string \<Rightarrow> Mail \<Rightarrow> (bool \<times> Mail) result" where
  "tcp_AUTH seq iss mail =
     (let (username, iss) = read_word iss; (as, iss) = read_word iss;
          (secret, iss) = read_word iss; (usg, iss) = read_word iss; (dN, _) = read_word iss
      in rbind (mkAuthMessage seq username dN secret) (\<lambda>authMsg.
         if as \<noteq> ''AS'' \<or> usg \<noteq> ''USING'' then Inr (False, mail)
         else Inr (True, fill mail AUTH True authMsg)))"

definition tcp_JOIN :: "u16 \<Rightarrow> string \<Rightarrow> Mail \<Rightarrow> (bool \<times> Mail) result" where
  "tcp_JOIN seq iss mail =
     (let (channelID, iss) = read_word iss; (as, iss) = read_word iss; (dN, _) = read_word iss
      in rbind (mkJoinMessage (uint seq) channelID dN) (\<lambda>joinMsg.
         if as \<noteq> ''AS'' then Inr (False, mail)
         else Inr (True, fill mail JOIN True joinMsg)))"

definition tcp_MSG :: "u16 \<Rightarrow> string \<Rightarrow> Mail \<Rightarrow> (bool \<times> Mail) result" where
  "tcp_MSG seq iss mail =
     (let (from, iss) = read_word iss; (dN, iss) = read_word iss;
          (is, iss) = read_word iss; mC = trim_content (fst (read_line iss))
      in rbind (mkTextMessage (uint seq) dN mC) (\<lambda>srvMsg.
         if from \<noteq> ''FROM'' \<or> is \<noteq> ''IS'' then Inr (False, mail)
         else Inr (True, fill mail MSG True srvMsg)))"

lemmas tcp_defs = tcp_ERR_def tcp_REPLY_def tcp_AUTH_def tcp_JOIN_def tcp_MSG_def

definition writeTCPMail ::
    "u16 \<Rightarrow> string \<Rightarrow> Mail \<Rightarrow> (console list \<times> bool \<times> Mail) result" where
  "writeTCPMail sequenceUDPNumber buffer mail =
     rbind (c_str buffer) (\<lambda>str.
     let (msgType, iss) = read_word str in
     if msgType = ''BYE'' then Inr ([], True, mail\<lparr>mtype := Some BYE\<rparr>)
     else if msgType = ''ERR'' then rbind (tcp_ERR sequenceUDPNumber iss mail) (\<lambda>r. Inr ([], r))
     else if msgType = ''REPLY'' then rbind (tcp_REPLY sequenceUDPNumber iss mail) (\<lambda>r. Inr ([], r))
     else if msgType = ''AUTH'' then rbind (tcp_AUTH sequenceUDPNumber iss mail) (\<lambda>r. Inr ([], r))
     else if msgType = ''JOIN'' then rbind (tcp_JOIN sequenceUDPNumber iss mail) (\<lambda>r. Inr ([], r))
     else if msgType = ''MSG'' then rbind (tcp_MSG sequenceUDPNumber iss mail) (\<lambda>r. Inr ([], r))
     else
       Inr ([Stderr (''ERR: Unknown message type.'' @ [LF])], True,
            mail\<lparr>mtype := Some UNKNOWN, addToMailQueue := True\<rparr>))"

subsection \<open>Reading back what was written\<close>

lemma range_token: "list_all (in_range lo hi) s \<Longrightarrow> 32 < lo \<Longrightarrow> s \<noteq> [] \<Longrightarrow> token s"
  by (auto simp: token_def list_all_iff dest!: bspec dest: in_range_not_isspace)

lemma valid_token:
  "valid_username s \<Longrightarrow> token s"
  "valid_channel s \<Longrightarrow> token s"
  "valid_secret s \<Longrightarrow> token s"
  "valid_name s \<Longrightarrow> token s"
  using range_token [OF valid_name_range(1)] range_token [OF valid_name_range(2)]
    range_token [OF valid_name_range(3)] range_token [OF valid_name_range(4)]
  by (auto simp: valid_defs)

lemma valid_content_no_LF: "valid_content s \<Longrightarrow> LF \<notin> set s"
  by (auto simp: valid_content_def list_all_iff in_range_def code_def)

lemma trim_content_line [stream_simps]: "trim_content (SP # s @ [CR]) = s"
  by (simp add: trim_content_def)

lemma keyword_tokens:
  "token ''FROM''" "token ''IS''" "token ''AS''" "token ''USING''" "token ''OK''" "token ''NOK''"
  "token ''MSG''" "token ''ERR''" "token ''REPLY''" "token ''AUTH''" "token ''JOIN''" "token ''BYE''"
  "token ''CONFIRM''"
  by (simp_all add: token_def isspace_def in_range_def code_def)

text \<open>A keyword followed by a blank, as the reader meets it.\<close>

lemmas read_keyword = keyword_tokens [THEN read_word_token, OF isspace_SP, simplified]
  keyword_tokens [THEN read_word_token, OF isspace_CR, simplified]

lemma read_content:
  assumes "valid_content m"
  shows "trim_content (fst (read_line (SP # m @ CR # LF # rest))) = m"
proof -
  have "read_line ((SP # m @ [CR]) @ LF # rest) = (SP # m @ [CR], rest)"
    using valid_content_no_LF [OF assms] by (intro read_line_append) simp
  then show ?thesis by (simp add: stream_simps)
qed

text \<open>What the reader makes of a message: no identifiers, and an AUTH with its display name
  and its secret exchanged.\<close>

fun tcp_image :: "u16 \<Rightarrow> MessageData \<Rightarrow> MessageData" where
  "tcp_image seq (AuthMessage w u d s) = AuthMessage seq u s d"
| "tcp_image seq (JoinMessage n c d) = JoinMessage (uint seq) c d"
| "tcp_image seq (ErrorMessage n d m) = ErrorMessage (uint seq) d m"
| "tcp_image seq (TextMessage b n d m) = TextMessage False (uint seq) d m"
| "tcp_image seq (ReplyMessage n r ref m) = ReplyMessage (uint seq) r (-1) m"
| "tcp_image seq d = d"

lemma read_tcp_line:
  assumes "valid_data d" and "data_type d \<in> {ERR, REPLY, JOIN, MSG}" and "NUL \<notin> set rest"
  shows "writeTCPMail seq (wire False (data_type d) d @ rest @ NUL # pad) mail =
    Inr ([], True, fill mail (data_type d) True (tcp_image seq d))"
proof -
  have c: "c_str ((wire False (data_type d) d @ rest) @ NUL # pad) = Inr (wire False (data_type d) d @ rest)"
    using assms wire_tcp_no_NUL [OF assms(1)] by (intro c_str_append) simp
  show ?thesis
    using assms c
    by (cases d)
      (auto simp: writeTCPMail_def tcp_defs wire_tcp stream_simps read_keyword read_content
        read_word_token [OF valid_token(1) isspace_SP] read_word_token [OF valid_token(2) isspace_SP]
        read_word_token [OF valid_token(4) isspace_SP] read_word_token [OF valid_token(4) isspace_CR])
qed

subsection \<open>The TCP codec\<close>

definition tcp_read :: "u16 \<Rightarrow> string \<Rightarrow> MessageData result" where
  "tcp_read seq buffer = rbind (writeTCPMail seq buffer default_Mail) (\<lambda>(_, _, m). Inr (mdata m))"

text \<open>Over TCP a message carries no identifier: the good ones have the reader's.\<close>

definition tcp_good :: "u16 \<Rightarrow> MessageData \<Rightarrow> bool" where
  "tcp_good seq d \<longleftrightarrow> valid_data d \<and> data_type d \<in> {ERR, REPLY, JOIN, MSG} \<and> tcp_image seq d = d"

interpretation tcp_codec: wire_codec "tcp_good seq" "\<lambda>d. wire False (data_type d) d" "tcp_read seq"
  for seq
proof
  fix d pad assume "tcp_good seq d"
  then show "tcp_read seq (wire False (data_type d) d @ NUL # pad) = Inr d"
    using read_tcp_line [of d "[]" seq pad default_Mail]
    by (auto simp: tcp_good_def tcp_read_def fill_def)
qed

subsection \<open>Properties\<close>

text \<open>What the reader gives for the line of a message, type by type.\<close>

fun tcp_reading :: "u16 \<Rightarrow> MessageData \<Rightarrow> (console list \<times> bool \<times> Mail) result" where
  "tcp_reading seq (ErrorMessage n d m) =
     Inr ([], True, fill default_Mail ERR True (ErrorMessage (uint seq) d m))"
| "tcp_reading seq (ReplyMessage n r ref m) =
     Inr ([], True, fill default_Mail REPLY True (ReplyMessage (uint seq) r (-1) m))"
| "tcp_reading seq (JoinMessage n c d) =
     Inr ([], True, fill default_Mail JOIN True (JoinMessage (uint seq) c d))"
| "tcp_reading seq (TextMessage b n d m) =
     Inr ([], True, fill default_Mail MSG True (TextMessage False (uint seq) d m))"
| "tcp_reading seq (AuthMessage w u d s) =
     (if 20 < length s then refusal ''DisplayName'' s
      else if d \<notin> words_over name_letters 128 then refusal ''Secret'' d
      else Inr ([], True, fill default_Mail AUTH True (AuthMessage seq u s d)))"
| "tcp_reading seq (ByeMessage n) = Inr ([], True, default_Mail\<lparr>mtype := Some BYE\<rparr>)"
| "tcp_reading seq (ConfirmMessage n) =
     Inr ([Stderr (''ERR: Unknown message type.'' @ [LF])], True, default_Mail\<lparr>mtype := Some UNKNOWN\<rparr>)"
| "tcp_reading seq (UnknownMessage n) = refusal ''DisplayName'' []"

lemma read_auth_line:
  assumes "valid_data (AuthMessage w u d s)"
  shows "writeTCPMail seq (wire False AUTH (AuthMessage w u d s) @ NUL # pad) default_Mail =
    tcp_reading seq (AuthMessage w u d s)"
proof -
  have c: "c_str (wire False AUTH (AuthMessage w u d s) @ NUL # pad) =
      Inr (wire False AUTH (AuthMessage w u d s))"
    using wire_tcp_no_NUL [OF assms, of AUTH] by (intro c_str_append)
  have "list_all (in_range 33 126) s" using assms valid_name_range(3) by simp
  then have name: "valid_name s \<longleftrightarrow> length s \<le> 20" using assms by (auto simp: valid_defs)
  have "writeTCPMail seq (wire False AUTH (AuthMessage w u d s) @ NUL # pad) default_Mail =
      rbind (mkAuthMessage seq u s d) (\<lambda>authMsg. Inr ([], True, fill default_Mail AUTH True authMsg))"
    using assms c
    by (simp add: writeTCPMail_def tcp_defs wire_tcp stream_simps read_keyword
        read_word_token [OF valid_token(1) isspace_SP] read_word_token [OF valid_token(4) isspace_SP]
        read_word_token [OF valid_token(3) isspace_CR])
      (cases "mkAuthMessage seq u s d"; simp)
  then show ?thesis
    using assms name
    by (simp add: mkAuthMessage_def validators_eq rejection_def refusal_def hexStream_bytes flip: valid_words)
qed

text \<open>The lines without fields.\<close>

lemma read_bare_line:
  "writeTCPMail seq (''BYE'' @ [CR, LF] @ NUL # pad) default_Mail = tcp_reading seq (ByeMessage n)"
  "writeTCPMail seq (''CONFIRM'' @ [CR, LF] @ NUL # pad) default_Mail = tcp_reading seq (ConfirmMessage n)"
  "writeTCPMail seq (''ERR'' @ [CR, LF] @ NUL # pad) default_Mail = tcp_reading seq (UnknownMessage n)"
proof -
  have "isspace LF" by (simp add: isspace_def in_range_def code_def)
  then show
    "writeTCPMail seq (''BYE'' @ [CR, LF] @ NUL # pad) default_Mail = tcp_reading seq (ByeMessage n)"
    "writeTCPMail seq (''CONFIRM'' @ [CR, LF] @ NUL # pad) default_Mail = tcp_reading seq (ConfirmMessage n)"
    "writeTCPMail seq (''ERR'' @ [CR, LF] @ NUL # pad) default_Mail = tcp_reading seq (UnknownMessage n)"
    by (simp_all add: writeTCPMail_def c_str_def tcp_defs read_keyword stream_simps mkErrorMessage_def
        validators_eq rejection_def refusal_def hexStream_def default_Mail_def)
qed

text \<open>
  C16. Over TCP, what the client reads back of each of its own lines. Of a valid ERR, REPLY,
  JOIN or text message it recovers every field but the identifiers, which the line does not
  carry (the reader puts in its own sequence number, and -1 for the reference). Of an AUTH it
  exchanges the display name and the secret, and refuses the line when the secret is too
  long for a display name or the display name is no secret. Of a BYE it sets the type but not the
  body. A CONFIRM reads as an unknown message, with a message on the standard error output,
  and an UNKNOWN, which is written as ERR, is refused for its empty display name.
\<close>

theorem tcp_roundtrip:
  assumes "valid_data (mdata m)" and "mtype m = Some (data_type (mdata m))"
  shows "\<exists>line. serialize False m = Inr line \<and>
    writeTCPMail seq (line @ NUL # pad) default_Mail = tcp_reading seq (mdata m)"
proof -
  let ?d = "mdata m"
  have "writeTCPMail seq (wire False (data_type ?d) ?d @ NUL # pad) default_Mail = tcp_reading seq ?d"
  proof (cases "data_type ?d \<in> {ERR, REPLY, JOIN, MSG}")
    case True
    from read_tcp_line [OF assms(1) this, of "[]" seq pad default_Mail] show ?thesis
      using True by (cases ?d) simp_all
  next
    case False
    then show ?thesis
      using assms(1) read_auth_line read_bare_line by (cases ?d) (simp_all add: wire_tcp)
  qed
  then show ?thesis using assms(2) by (simp add: serialize_def)
qed

theorem tcp_roundtrip_witness:
  "\<exists>line. serialize False (fill default_Mail AUTH True (AuthMessage 5 ''user'' ''nick'' ''pass'')) = Inr line \<and>
    writeTCPMail 9 (line @ NUL # []) default_Mail =
      Inr ([], True, fill default_Mail AUTH True (AuthMessage 9 ''user'' ''pass'' ''nick''))"
proof -
  have "''nick'' \<in> words_over name_letters 128" by (simp add: words_over_def name_letters_def)
  then show ?thesis
    using tcp_roundtrip [of "fill default_Mail AUTH True (AuthMessage 5 ''user'' ''nick'' ''pass'')" 9 "[]"]
    by (simp add: fill_def valid_defs alnum_dash_def in_range_def code_def)
qed

text \<open>
  A line of the server is read, but nothing after it: when a second message arrives in
  the same segment, the mail made from the buffer is the one made from the first message
  alone, and the rest is dropped.
\<close>

theorem tcp_second_message_lost:
  assumes "valid_data d" and "data_type d \<in> {ERR, REPLY, JOIN, MSG}" and "valid_data d2"
  shows "writeTCPMail seq (wire False (data_type d) d @ wire False t2 d2 @ NUL # pad) mail =
    writeTCPMail seq (wire False (data_type d) d @ NUL # pad) mail"
  using read_tcp_line [OF assms(1,2), of "wire False t2 d2" seq pad mail] wire_tcp_no_NUL [OF assms(3)]
    read_tcp_line [OF assms(1,2), of "[]" seq pad mail] by simp

theorem tcp_second_message_lost_witness:
  "writeTCPMail 0 (wire False MSG (TextMessage False 0 ''bob'' ''one'') @
       wire False MSG (TextMessage False 0 ''bob'' ''two'') @ NUL # []) default_Mail =
   writeTCPMail 0 (wire False MSG (TextMessage False 0 ''bob'' ''one'') @ NUL # []) default_Mail"
  using tcp_second_message_lost [of "TextMessage False 0 ''bob'' ''one''"
      "TextMessage False 0 ''bob'' ''two''" 0 MSG "[]" default_Mail]
  by (simp add: valid_name_def valid_content_def in_range_def code_def)

text \<open>
  Reading the line of an AUTH message exchanges its display name and its secret: the
  serialiser writes the display name before USING and the reader takes the secret from there.
\<close>

theorem tcp_auth_exchanged:
  assumes "valid_username u" and "valid_name d" and "valid_secret s"
    and "valid_secret d" and "valid_name s"
  shows "writeTCPMail seq (wire False AUTH (AuthMessage w u d s) @ NUL # pad) mail =
    Inr ([], True, fill mail AUTH True (AuthMessage seq u s d))"
proof -
  have c: "c_str (wire False AUTH (AuthMessage w u d s) @ NUL # pad) =
      Inr (wire False AUTH (AuthMessage w u d s))"
    using wire_tcp_no_NUL [of "AuthMessage w u d s" AUTH] assms by (intro c_str_append) simp
  show ?thesis
    using assms c
    by (simp add: writeTCPMail_def tcp_defs wire_tcp stream_simps read_keyword
        read_word_token [OF valid_token(1) isspace_SP] read_word_token [OF valid_token(4) isspace_SP]
        read_word_token [OF valid_token(3) isspace_CR] read_word_token [OF valid_token(4) isspace_CR])
qed

theorem tcp_auth_exchanged_witness:
  "writeTCPMail 0 (wire False AUTH (AuthMessage 0 ''user'' ''nick'' ''pass'') @ NUL # []) default_Mail =
    Inr ([], True, fill default_Mail AUTH True (AuthMessage 0 ''user'' ''pass'' ''nick''))"
  by (rule tcp_auth_exchanged)
    (simp_all add: valid_defs alnum_dash_def in_range_def code_def)

lemma bad_keyword_unwritten:
  assumes "valid_name d" and "valid_content m" and "token w" and "w \<noteq> ''FROM''" and "NUL \<notin> set w"
  shows "writeTCPMail seq (''MSG '' @ w @ SP # d @ '' IS '' @ m @ CR # LF # NUL # pad) default_Mail =
    Inr ([], False, default_Mail)"
proof -
  let ?line = "''MSG '' @ w @ SP # d @ '' IS '' @ m @ [CR, LF]"
  have "c_str (?line @ NUL # pad) = Inr ?line"
    using assms valid_no_NUL(4,5) by (intro c_str_append) auto
  then show ?thesis
    using assms read_content [OF assms(2), of "[]"]
    by (simp add: writeTCPMail_def tcp_defs stream_simps read_keyword
        read_word_token [OF valid_token(4) isspace_SP])
qed

text \<open>
  A line whose keyword is wrong but whose fields are valid is refused by returning
  false with the mail untouched, so that its type stays unwritten.
\<close>

theorem tcp_bad_keyword_leaves_type:
  assumes "valid_name d" and "valid_content m" and "token w" and "w \<noteq> ''FROM''" and "NUL \<notin> set w"
  shows "writeTCPMail seq (''MSG '' @ w @ SP # d @ '' IS '' @ m @ CR # LF # NUL # pad) default_Mail =
    Inr ([], False, default_Mail)"
  using assms by (rule bad_keyword_unwritten)

theorem tcp_bad_keyword_leaves_type_witness:
  "writeTCPMail 0 (''MSG '' @ ''FORM'' @ SP # ''bob'' @ '' IS '' @ ''hi'' @ CR # LF # NUL # []) default_Mail =
    Inr ([], False, default_Mail)"
  by (rule tcp_bad_keyword_leaves_type)
    (simp_all add: valid_defs token_def isspace_def in_range_def code_def)

end
