(* ===== verification/Pipes.thy ===== *)
theory Pipes
  imports Console "HOL-Library.RBT"
begin

text \<open>
  The classes \<open>Pipe\<close> and \<open>PipeManager\<close> of \<open>pipes.h\<close> over a model of the descriptor table
  of the process. The system calls \<open>pipe\<close>, \<open>close\<close>, \<open>read\<close>, \<open>write\<close> and \<open>fcntl\<close> are the
  POSIX ones as far as the program uses them: a pipe is a byte queue with a read end and a
  write end, descriptors are the lowest free numbers below a limit, a \<open>read\<close> of an empty
  pipe ends the stream when no write end is open, fails with EAGAIN when the descriptor is
  non-blocking and blocks otherwise, a \<open>write\<close> fails unless its descriptor is an open write
  end whose pipe has an open read end. The capacity of a pipe is not modelled: a write is
  whole.
\<close>

subsection \<open>Descriptor types\<close>

datatype fdType = StdinPipe | SocketPipe | ToSendPipe | SignalPipe | Unknown

text \<open>The keys of a \<open>std::map\<close> are ordered; an enumeration is ordered by its values.\<close>

fun fdType_value :: "fdType \<Rightarrow> nat" where
  "fdType_value StdinPipe = 0"
| "fdType_value SocketPipe = 1"
| "fdType_value ToSendPipe = 2"
| "fdType_value SignalPipe = 3"
| "fdType_value Unknown = 4"

lemma fdType_value_inject [simp]: "fdType_value a = fdType_value b \<longleftrightarrow> a = b"
  by (cases a; cases b) simp_all

instantiation fdType :: linorder
begin

definition less_eq_fdType :: "fdType \<Rightarrow> fdType \<Rightarrow> bool" where
  "less_eq_fdType a b \<longleftrightarrow> fdType_value a \<le> fdType_value b"

definition less_fdType :: "fdType \<Rightarrow> fdType \<Rightarrow> bool" where
  "less_fdType a b \<longleftrightarrow> fdType_value a < fdType_value b"

instance
  by standard (auto simp: less_eq_fdType_def less_fdType_def)

end

subsection \<open>The descriptor table\<close>

datatype descriptor = Read_end nat | Write_end nat | Other

record Kernel =
  fds :: "(int \<times> descriptor) list"
  bufs :: "nat \<Rightarrow> string"
  next_pipe :: nat
  nonblock :: "int list"
  fd_limit :: nat

datatype ReadResult =
    Count string      \<comment> \<open>the bytes read; none at the end of the stream\<close>
  | Failed bool       \<comment> \<open>-1, with errno = EAGAIN or not\<close>
  | Block             \<comment> \<open>does not return until a byte is there\<close>

definition free_fds :: "Kernel \<Rightarrow> int list" where
  "free_fds k = [fd \<leftarrow> map int [0..<fd_limit k]. fd \<notin> fst ` set (fds k)]"

definition sys_pipe :: "Kernel \<Rightarrow> ((int \<times> int) \<times> Kernel) option" where
  "sys_pipe k = (case free_fds k of
       r # w # _ \<Rightarrow> Some ((r, w),
         k\<lparr>fds := (r, Read_end (next_pipe k)) # (w, Write_end (next_pipe k)) # fds k,
           bufs := (bufs k)(next_pipe k := []), next_pipe := Suc (next_pipe k)\<rparr>)
     | _ \<Rightarrow> None)"

definition sys_close :: "int \<Rightarrow> Kernel \<Rightarrow> Kernel" where
  "sys_close fd k = k\<lparr>fds := filter (\<lambda>e. fst e \<noteq> fd) (fds k),
     nonblock := filter (\<lambda>f. f \<noteq> fd) (nonblock k)\<rparr>"

definition sys_write :: "int \<Rightarrow> string \<Rightarrow> Kernel \<Rightarrow> Kernel option" where
  "sys_write fd data k = (case map_of (fds k) fd of
       Some (Write_end p) \<Rightarrow>
         (if Read_end p \<in> snd ` set (fds k) then Some (k\<lparr>bufs := (bufs k)(p := bufs k p @ data)\<rparr>)
          else None)
     | _ \<Rightarrow> None)"

definition sys_read :: "int \<Rightarrow> nat \<Rightarrow> Kernel \<Rightarrow> ReadResult \<times> Kernel" where
  "sys_read fd n k = (case map_of (fds k) fd of
       Some (Read_end p) \<Rightarrow>
         (if bufs k p \<noteq> [] then
            (Count (take n (bufs k p)), k\<lparr>bufs := (bufs k)(p := drop n (bufs k p))\<rparr>)
          else if Write_end p \<notin> snd ` set (fds k) then (Count [], k)
          else if fd \<in> set (nonblock k) then (Failed True, k)
          else (Block, k))
     | _ \<Rightarrow> (Failed False, k))"

definition sys_set_nonblock :: "int \<Rightarrow> Kernel \<Rightarrow> Kernel" where
  "sys_set_nonblock fd k =
     (if fd \<in> fst ` set (fds k) then k\<lparr>nonblock := fd # nonblock k\<rparr> else k)"

subsection \<open>Pipe\<close>

record Pipe =
  ptype :: fdType
  read_fd :: int
  write_fd :: int

definition new_Pipe :: "fdType \<Rightarrow> Kernel \<Rightarrow> (Pipe \<times> Kernel) result" where
  "new_Pipe type k = (case sys_pipe k of
       None \<Rightarrow> Inl (Runtime_error ''Failed to create pipe'')
     | Some ((r, w), k') \<Rightarrow> Inr (\<lparr>ptype = type, read_fd = r, write_fd = w\<rparr>, k'))"

definition destroy_Pipe :: "Pipe \<Rightarrow> Kernel \<Rightarrow> Kernel" where
  "destroy_Pipe p k =
     (let k = (if read_fd p \<noteq> -1 then sys_close (read_fd p) k else k)
      in if write_fd p \<noteq> -1 then sys_close (write_fd p) k else k)"

definition makeNonBlocking :: "Pipe \<Rightarrow> Kernel \<Rightarrow> Kernel" where
  "makeNonBlocking p k = (if read_fd p \<noteq> -1 then sys_set_nonblock (read_fd p) k else k)"

definition Pipe_write :: "Pipe \<Rightarrow> string \<Rightarrow> Kernel \<Rightarrow> Kernel result" where
  "Pipe_write p data k =
     (if write_fd p \<noteq> -1 then
        (case sys_write (write_fd p) data k of
           None \<Rightarrow> Inl (Runtime_error ''Failed to write to pipe'')
         | Some k' \<Rightarrow> Inr k')
      else Inr k)"

definition getWriteFd :: "Pipe \<Rightarrow> int" where "getWriteFd p = write_fd p"
definition getReadFd :: "Pipe \<Rightarrow> int" where "getReadFd p = read_fd p"
definition getType :: "Pipe \<Rightarrow> fdType" where "getType p = ptype p"

subsection \<open>PipeManager\<close>

text \<open>
  \<open>std::map\<close> is a red-black tree. \<open>pipes[type]\<close> inserts a default-constructed pipe when the
  key is absent; a \<open>Pipe\<close> has a destructor and so no move assignment, and
  \<open>pipes[type] = std::move(newPipe)\<close> copies the descriptors of \<open>newPipe\<close>, whose destructor
  runs at the end of the function.
\<close>

type_synonym PipeManager = "(fdType, Pipe) RBT.rbt"

definition addPipe :: "fdType \<Rightarrow> bool \<Rightarrow> PipeManager \<Rightarrow> Kernel \<Rightarrow> (PipeManager \<times> Kernel) result" where
  "addPipe type readNonBlocking pipes k =
     rbind (new_Pipe Unknown k) (\<lambda>(newPipe, k).
     let k = (if readNonBlocking then makeNonBlocking newPipe k else k) in
     rbind (case RBT.lookup pipes type of
              Some _ \<Rightarrow> Inr k
            | None \<Rightarrow> rbind (new_Pipe Unknown k) (\<lambda>(_, k). Inr k)) (\<lambda>k.
     Inr (RBT.insert type newPipe pipes, destroy_Pipe newPipe k)))"

definition writeToPipe :: "PipeManager \<Rightarrow> fdType \<Rightarrow> string \<Rightarrow> Kernel \<Rightarrow> Kernel result" where
  "writeToPipe pipes type data k = (case RBT.lookup pipes type of
       Some p \<Rightarrow> Pipe_write p data k
     | None \<Rightarrow> Inl (Runtime_error ''Pipe not found''))"

subsection \<open>The pipe as a byte channel\<close>

text \<open>
  The bytes waiting in a pipe. An open pipe has both ends open, on two descriptors of
  their own.
\<close>

definition pending :: "Pipe \<Rightarrow> Kernel \<Rightarrow> string" where
  "pending p k = (case map_of (fds k) (read_fd p) of Some (Read_end n) \<Rightarrow> bufs k n | _ \<Rightarrow> [])"

fun matching :: "descriptor option \<Rightarrow> descriptor option \<Rightarrow> bool" where
  "matching (Some (Read_end n)) (Some (Write_end m)) \<longleftrightarrow> n = m"
| "matching _ _ \<longleftrightarrow> False"

definition open_pipe :: "Pipe \<Rightarrow> Kernel \<Rightarrow> bool" where
  "open_pipe p k \<longleftrightarrow> 0 \<le> read_fd p \<and> 0 \<le> write_fd p \<and>
     matching (map_of (fds k) (read_fd p)) (map_of (fds k) (write_fd p))"

lemma matching_iff: "matching a b \<longleftrightarrow> (\<exists>n. a = Some (Read_end n) \<and> b = Some (Write_end n))"
  by (cases "(a, b)" rule: matching.cases) auto

text \<open>Two open pipes whose read ends are different pipes of the kernel.\<close>

definition apart :: "Pipe \<Rightarrow> Pipe \<Rightarrow> Kernel \<Rightarrow> bool" where
  "apart p q k \<longleftrightarrow> map_of (fds k) (read_fd p) \<noteq> map_of (fds k) (read_fd q)"

text \<open>The interface of a byte queue between two threads, in terms of its contents.\<close>

locale byte_channel =
  fixes usable :: "'k \<Rightarrow> bool"
    and contents :: "'k \<Rightarrow> string"
    and put :: "string \<Rightarrow> 'k \<Rightarrow> 'k result"
    and get :: "nat \<Rightarrow> 'k \<Rightarrow> ReadResult \<times> 'k"
  assumes put_ok: "usable k \<Longrightarrow> \<exists>k'. put data k = Inr k' \<and> usable k' \<and> contents k' = contents k @ data"
    and get_ok: "usable k \<Longrightarrow> contents k \<noteq> [] \<Longrightarrow> 0 < n \<Longrightarrow>
      \<exists>k'. get n k = (Count (take n (contents k)), k') \<and> usable k' \<and> contents k' = drop n (contents k)"
begin

lemma putD: "usable k \<Longrightarrow> put data k = Inr k' \<Longrightarrow> usable k' \<and> contents k' = contents k @ data"
  by (metis put_ok sum.inject(2))

lemma put_length: "usable k \<Longrightarrow> put data k = Inr k' \<Longrightarrow>
    usable k' \<and> length (contents k') = length (contents k) + length data"
  by (simp add: putD)

lemma getD: "usable k \<Longrightarrow> contents k \<noteq> [] \<Longrightarrow> 0 < n \<Longrightarrow> get n k = (r, k') \<Longrightarrow>
    r = Count (take n (contents k)) \<and> usable k' \<and> contents k' = drop n (contents k)"
  by (metis get_ok prod.inject)

lemma get_one: "usable k \<Longrightarrow> contents k \<noteq> [] \<Longrightarrow> get 1 k = (r, k') \<Longrightarrow>
    r = Count [hd (contents k)] \<and> usable k' \<and> contents k' = tl (contents k)"
  using getD [of k 1 r k'] by (simp add: take_Suc drop_Suc)

lemma put_get: "usable k \<Longrightarrow> contents k = [] \<Longrightarrow> data \<noteq> [] \<Longrightarrow> put data k = Inr k' \<Longrightarrow>
    get (length data) k' = (r, k'') \<Longrightarrow> r = Count data \<and> contents k'' = []"
  using putD [of k data k'] getD [of k' "length data" r k''] by simp

end

lemma map_of_snd: "map_of xs a = Some b \<Longrightarrow> b \<in> snd ` set xs"
  using image_eqI [of b snd "(a, b)" "set xs"] by (auto dest: map_of_SomeD)

lemma open_pipe_ends:
  assumes "open_pipe p k"
  obtains n where "map_of (fds k) (read_fd p) = Some (Read_end n)"
    "map_of (fds k) (write_fd p) = Some (Write_end n)"
    "Read_end n \<in> snd ` set (fds k)" "Write_end n \<in> snd ` set (fds k)"
    "write_fd p \<noteq> -1" "read_fd p \<noteq> -1"
proof -
  from assms obtain n where n: "map_of (fds k) (read_fd p) = Some (Read_end n)"
    "map_of (fds k) (write_fd p) = Some (Write_end n)"
    by (auto simp: open_pipe_def matching_iff)
  from assms have "write_fd p \<noteq> -1" "read_fd p \<noteq> -1" by (auto simp: open_pipe_def)
  with n show thesis using map_of_snd [OF n(1)] map_of_snd [OF n(2)] by (intro that)
qed

lemma Pipe_write_open:
  assumes "open_pipe p k"
  shows "\<exists>k'. Pipe_write p data k = Inr k' \<and> fds k' = fds k \<and> nonblock k' = nonblock k \<and>
    pending p k' = pending p k @ data \<and> (\<forall>q. apart p q k \<longrightarrow> pending q k' = pending q k)"
  using assms by (rule open_pipe_ends)
    (auto simp: Pipe_write_def sys_write_def pending_def apart_def split: option.splits descriptor.splits)

lemma sys_read_open:
  assumes "open_pipe p k" and "pending p k \<noteq> []"
  shows "\<exists>k'. sys_read (read_fd p) n k = (Count (take n (pending p k)), k') \<and> fds k' = fds k \<and>
    nonblock k' = nonblock k \<and> pending p k' = drop n (pending p k) \<and>
    (\<forall>q. apart p q k \<longrightarrow> pending q k' = pending q k)"
  using assms(1) by (rule open_pipe_ends)
    (use assms(2) in \<open>auto simp: sys_read_def pending_def apart_def
      split: option.splits descriptor.splits\<close>)

lemma open_pipe_fds: "fds k' = fds k \<Longrightarrow> open_pipe p k' = open_pipe p k"
  by (simp add: open_pipe_def)

lemma apart_fds: "fds k' = fds k \<Longrightarrow> apart p q k' = apart p q k"
  by (simp add: apart_def)

interpretation pipe_channel: byte_channel "open_pipe p" "pending p" "Pipe_write p" "sys_read (read_fd p)"
  for p
proof
  fix k data assume "open_pipe p k"
  then show "\<exists>k'. Pipe_write p data k = Inr k' \<and> open_pipe p k' \<and> pending p k' = pending p k @ data"
    using Pipe_write_open [of p k data] open_pipe_fds by blast
next
  fix k and n :: nat assume "open_pipe p k" "pending p k \<noteq> []"
  then show "\<exists>k'. sys_read (read_fd p) n k = (Count (take n (pending p k)), k') \<and>
      open_pipe p k' \<and> pending p k' = drop n (pending p k)"
    using sys_read_open [of p k n] open_pipe_fds by blast
qed

text \<open>A fresh pipe is open, empty and apart from every pipe that was open before.\<close>

lemma free_fds_Cons:
  assumes "free_fds k = r # w # rest"
  shows "0 \<le> r \<and> 0 \<le> w \<and> r \<noteq> w \<and> r \<notin> fst ` set (fds k) \<and> w \<notin> fst ` set (fds k)"
proof -
  have "distinct (free_fds k)" by (auto simp: free_fds_def distinct_map inj_on_def)
  moreover have "{r, w} \<subseteq> set (free_fds k)" using assms by simp
  ultimately show ?thesis using assms by (auto simp: free_fds_def)
qed

lemma new_Pipe_open:
  assumes "new_Pipe t k = Inr (p, k')"
  shows "open_pipe p k' \<and> pending p k' = [] \<and> ptype p = t"
  using assms free_fds_Cons [of k "read_fd p" "write_fd p"]
  by (auto simp: new_Pipe_def sys_pipe_def open_pipe_def pending_def
      split: option.splits list.splits)

text \<open>A process with its three standard descriptors, for concrete runs.\<close>

definition fresh_kernel :: Kernel where
  "fresh_kernel = \<lparr>fds = [(0, Other), (1, Other), (2, Other)], bufs = (\<lambda>_. []), next_pipe = 0,
     nonblock = [], fd_limit = 16\<rparr>"

lemma map_of_filter_key: "map_of (filter (\<lambda>e. fst e \<noteq> fd) xs) fd = None"
  by (induction xs) auto

lemma map_of_filter_other: "fd \<noteq> fd' \<Longrightarrow> map_of (filter (\<lambda>e. fst e \<noteq> fd') xs) fd = map_of xs fd"
  by (induction xs) auto

lemma destroyed_closed:
  "write_fd p \<noteq> -1 \<Longrightarrow> map_of (fds (destroy_Pipe p k)) (write_fd p) = None"
  by (auto simp: destroy_Pipe_def sys_close_def Let_def map_of_filter_key)

text \<open>
  A pipe that was added to the manager is closed at once: the local pipe shares its
  descriptors with the stored one and closes them when \<open>addPipe\<close> returns, so that a write to
  it always throws.
\<close>

theorem managed_pipe_is_closed:
  assumes "addPipe type readNonBlocking pipes k = Inr (pipes', k')"
  shows "writeToPipe pipes' type data k' = Inl (Runtime_error ''Failed to write to pipe'')"
proof -
  from assms obtain p k1 k2 where p: "new_Pipe Unknown k = Inr (p, k1)"
    and r: "pipes' = RBT.insert type p pipes" "k' = destroy_Pipe p k2"
    by (auto simp: addPipe_def rbind_eq_Inr Let_def)
  have "write_fd p \<noteq> -1" using new_Pipe_open [OF p] by (auto simp: open_pipe_def)
  then show ?thesis using r destroyed_closed [of p k2]
    by (simp add: writeToPipe_def Pipe_write_def sys_write_def)
qed

theorem managed_pipe_is_closed_witness:
  "\<exists>pipes' k'. addPipe StdinPipe True RBT.empty fresh_kernel = Inr (pipes', k') \<and>
    writeToPipe pipes' StdinPipe ''x'' k' = Inl (Runtime_error ''Failed to write to pipe'')"
proof -
  have "case addPipe StdinPipe True RBT.empty fresh_kernel of Inr _ \<Rightarrow> True | Inl _ \<Rightarrow> False"
    by code_simp
  then obtain pipes' k' where a: "addPipe StdinPipe True RBT.empty fresh_kernel = Inr (pipes', k')"
    by (auto split: sum.splits)
  from managed_pipe_is_closed [OF a] a show ?thesis by blast
qed

end
