(* ===== verification/Mail_Box.thy ===== *)
theory Mail_Box
  imports Tcp_Reader Pipes
begin

text \<open>
  The class \<open>MailBox\<close> of \<open>mail-box.h\<close>: its two queues, the display name, the sequence
  number, and its operations. The mutex makes every operation atomic with respect to the
  queues, so each is one function on the state. \<open>std::queue\<close> is a list, front first.
\<close>

record MailBox =
  delivery_service :: ProtocolType
  incomingMails :: "Mail list"
  outgoingMails :: "Mail list"
  notifyListenerPipe :: "Pipe option"    \<comment> \<open>\<open>None\<close> is \<open>nullptr\<close>\<close>
  displayName :: string
  sequenceUDPNumber :: u16
  srvMsgId :: int

definition new_MailBox :: "ProtocolType \<Rightarrow> Pipe option \<Rightarrow> MailBox" where
  "new_MailBox protocolType pipe =
     \<lparr>delivery_service = protocolType, incomingMails = [], outgoingMails = [],
      notifyListenerPipe = pipe, displayName = ''default'', sequenceUDPNumber = 0,
      srvMsgId = -1\<rparr>"

subsection \<open>Taking mails out\<close>

text \<open>
  What \<open>waitMail\<close> prints for the mail it takes. Comparing a type that was never written is
  undefined, \<open>std::get\<close> of the wrong alternative throws.
\<close>

definition announce :: "Mail \<Rightarrow> console list result" where
  "announce mail = (case mtype mail of
       None \<Rightarrow> Inl (Undefined Uninitialised)
     | Some ERR \<Rightarrow>
         (if \<not> sigint mail then
            (case mdata mail of
               ErrorMessage _ dN mC \<Rightarrow> Inr [Stderr (''ERR FROM '' @ dN @ '': '' @ mC @ [LF])]
             | _ \<Rightarrow> Inl Bad_variant_access)
          else Inr [])
     | Some MSG \<Rightarrow>
         (case mdata mail of
            TextMessage toSend _ dN mC \<Rightarrow>
              Inr (if \<not> toSend then [Stdout (dN @ '': '' @ mC @ [LF])] else [])
          | _ \<Rightarrow> Inl Bad_variant_access)
     | Some REPLY \<Rightarrow>
         (case mdata mail of
            ReplyMessage _ r _ mC \<Rightarrow>
              Inr [Stderr ((if r then ''Success'' else ''Failure'') @ '': '' @ mC @ [LF])]
          | _ \<Rightarrow> Inl Bad_variant_access)
     | Some _ \<Rightarrow> Inr [])"

text \<open>\<open>waitMail\<close> blocks on the condition variable while the queue is empty.\<close>

definition waitMail :: "MailBox \<Rightarrow> (console list \<times> Mail \<times> MailBox) result" where
  "waitMail mb = (case incomingMails mb of
       [] \<Rightarrow> Inl Blocked
     | mail # rest \<Rightarrow>
         rbind (announce mail) (\<lambda>out. Inr (out, mail, mb\<lparr>incomingMails := rest\<rparr>)))"

definition getNotifyListenerPipe :: "MailBox \<Rightarrow> Pipe option" where
  [simp]: "getNotifyListenerPipe mb = notifyListenerPipe mb"

definition getOutgoingMail :: "MailBox \<Rightarrow> (Mail \<times> MailBox) result" where
  "getOutgoingMail mb = (case outgoingMails mb of
       [] \<Rightarrow> Inl (Undefined Empty_container)
     | mail # rest \<Rightarrow> Inr (mail, mb\<lparr>outgoingMails := rest\<rparr>))"

subsection \<open>Putting mails in\<close>

definition addMail :: "Mail \<Rightarrow> MailBox \<Rightarrow> MailBox" where
  "addMail mail mb =
     (if addToMailQueue mail then mb\<lparr>incomingMails := incomingMails mb @ [mail]\<rparr> else mb)"

text \<open>\<open>sendMail\<close> numbers every body that has an identifier of its own.\<close>

fun numbered :: "MessageData \<Rightarrow> bool" where
  "numbered (ConfirmMessage _) = False"
| "numbered (UnknownMessage _) = False"
| "numbered _ = True"

fun set_MessageID :: "u16 \<Rightarrow> MessageData \<Rightarrow> MessageData" where
  "set_MessageID n (AuthMessage _ u d s) = AuthMessage n u d s"
| "set_MessageID n (JoinMessage _ c d) = JoinMessage (uint n) c d"
| "set_MessageID n (ErrorMessage _ d m) = ErrorMessage (uint n) d m"
| "set_MessageID n (ByeMessage _) = ByeMessage (uint n)"
| "set_MessageID n (TextMessage b _ d m) = TextMessage b (uint n) d m"
| "set_MessageID n (ReplyMessage _ r ref m) = ReplyMessage (uint n) r ref m"
| "set_MessageID n d = d"

definition sendMail :: "Mail \<Rightarrow> MailBox \<Rightarrow> Kernel \<Rightarrow> (Mail \<times> MailBox \<times> Kernel) result" where
  "sendMail mail mb k =
     (if \<not> addToMailQueue mail then Inr (mail, mb, k)
      else
        let mail' = mail\<lparr>mdata := set_MessageID (sequenceUDPNumber mb) (mdata mail)\<rparr>;
            mb = (if numbered (mdata mail)
                  then mb\<lparr>sequenceUDPNumber := sequenceUDPNumber mb + 1\<rparr> else mb);
            mb = mb\<lparr>outgoingMails := outgoingMails mb @ [mail']\<rparr>
        in case notifyListenerPipe mb of
             None \<Rightarrow> Inr (mail', mb, k)
           | Some pipe \<Rightarrow> rbind (Pipe_write pipe ''1'' k) (\<lambda>k. Inr (mail', mb, k)))"

subsection \<open>Making mails\<close>

definition printMails :: "MailBox \<Rightarrow> console list" where
  "printMails mb = concat (map printMail (incomingMails mb))"

definition help_lines :: "string list" where
  "help_lines =
    [''Supported commands:'',
     ''/auth {Username} {Secret} {DisplayName} - Authenticates the user with the server using the provided username and secret. Sets the local display name to the provided value.'',
     ''/join {ChannelID} - Joins the channel with the specified ID.'',
     ''/rename {DisplayName} - Locally changes the display name of the user. This name is used in subsequent messages or commands that require a display name.'',
     ''/help - Prints out this help message showing supported commands and their parameters.'']"

text \<open>
  \<open>writeMail\<close> on a line of user input. \<open>/auth\<close> adopts the display name, \<open>/rename\<close> takes
  whatever word follows it (possibly none), a line that is no command is a message.
\<close>

definition writeMail_line ::
    "string \<Rightarrow> Mail \<Rightarrow> MailBox \<Rightarrow> (console list \<times> bool \<times> Mail \<times> MailBox) result" where
  "writeMail_line line mail mb =
     (let (command, iss) = read_word line; seq = sequenceUDPNumber mb in
      if command = ''/auth'' then
        (let (username, iss) = read_word iss; (secret, iss) = read_word iss; (dN, _) = read_word iss
         in rbind (mkAuthMessage seq username dN secret) (\<lambda>authMsg.
            Inr ([], True, fill mail AUTH True authMsg, mb\<lparr>displayName := dN\<rparr>)))
      else if command = ''/join'' then
        (let (channelID, _) = read_word iss
         in rbind (mkJoinMessage (uint seq) channelID (displayName mb)) (\<lambda>joinMsg.
            Inr ([], True, fill mail JOIN True joinMsg, mb)))
      else if command = ''/rename'' then
        (let (newDisplayName, _) = read_word iss
         in Inr ([], True, mail\<lparr>addToMailQueue := False\<rparr>, mb\<lparr>displayName := newDisplayName\<rparr>))
      else if command = ''/help'' then
        Inr (map (\<lambda>l. Stdout (l @ [LF])) help_lines, True, mail\<lparr>addToMailQueue := False\<rparr>, mb)
      else if command = ''/print'' then
        Inr (printMails mb, True, mail\<lparr>addToMailQueue := False\<rparr>, mb)
      else
        rbind (mkTextMessage (uint seq) (displayName mb) line) (\<lambda>textMsg.
        Inr ([], True, fill mail MSG True
          (case textMsg of TextMessage _ n d m \<Rightarrow> TextMessage True n d m | d \<Rightarrow> d), mb)))"

definition writeMail_buffer ::
    "string \<Rightarrow> Mail \<Rightarrow> MailBox \<Rightarrow> (console list \<times> bool \<times> Mail) result" where
  "writeMail_buffer buffer mail mb =
     (if delivery_service mb = UDP then writeUDPMail (delivery_service mb) buffer mail
      else writeTCPMail (sequenceUDPNumber mb) buffer mail)"

definition writeMail_type :: "MessageType \<Rightarrow> Mail \<Rightarrow> int \<Rightarrow> MailBox \<Rightarrow> Mail result" where
  "writeMail_type msgType mail refMessageID mb =
     (let seq = uint (sequenceUDPNumber mb) in
      case msgType of
        BYE \<Rightarrow> Inr (mail\<lparr>mtype := Some BYE, mdata := ByeMessage seq\<rparr>)
      | CONFIRM \<Rightarrow> Inr (mail\<lparr>mtype := Some CONFIRM, mdata := ConfirmMessage refMessageID\<rparr>)
      | _ \<Rightarrow> rbind (mkErrorMessage seq (displayName mb) ''MessageContent'') (\<lambda>d.
             Inr (mail\<lparr>mtype := Some ERR, mdata := d\<rparr>)))"

subsection \<open>Sound mails\<close>

text \<open>
  A sound mail has a type that was written, a body of that type (over TCP, a BYE and an
  unknown line keep the default body) and fields that their constructor accepted.
\<close>

definition typed :: "Mail \<Rightarrow> bool" where
  "typed m \<longleftrightarrow> mtype m = Some (data_type (mdata m)) \<or>
     (mtype m = Some BYE \<or> mtype m = Some UNKNOWN) \<and> mdata m = ConfirmMessage 0"

definition sound :: "Mail \<Rightarrow> bool" where
  "sound m \<longleftrightarrow> typed m \<and> valid_data (mdata m)"

definition queued :: "Mail \<Rightarrow> bool" where
  "queued m \<longleftrightarrow> sound m \<and> addToMailQueue m"

lemmas sound_defs = queued_def sound_def typed_def

lemma announce_sound: "sound m \<Longrightarrow> \<exists>out. announce m = Inr out"
  by (cases "mdata m") (auto simp: sound_defs announce_def)

lemma default_Mail_sel [simp]:
  "mtype default_Mail = None" "mdata default_Mail = ConfirmMessage 0"
  "addToMailQueue default_Mail" "\<not> sigint default_Mail"
  by (simp_all add: default_Mail_def)

lemma fill_sel [simp]:
  "mtype (fill m t q d) = Some t" "mdata (fill m t q d) = d"
  "addToMailQueue (fill m t q d) = q" "sigint (fill m t q d) = sigint m"
  by (simp_all add: fill_def)

lemma sound_fill [simp]: "sound (fill m t q d) \<longleftrightarrow> typed (fill m t q d) \<and> valid_data d"
  by (simp add: sound_def)

lemma typed_fill: "t = data_type d \<Longrightarrow> typed (fill m t q d)"
  by (simp add: typed_def)

lemma writeUDPMail_sound:
  "writeUDPMail ds buffer mail = Inr (out, b, mail') \<Longrightarrow> b \<and> sound mail' \<and> sigint mail' = sigint mail"
proof (cases buffer)
  case (Cons c current)
  assume "writeUDPMail ds buffer mail = Inr (out, b, mail')"
  with Cons show ?thesis
    by (cases "type_of_byte c") (auto simp: writeUDPMail_def result_simps typed_fill)
qed (simp add: writeUDPMail_def)

lemma tcp_sound:
  "tcp_ERR seq iss mail = Inr (b, mail') \<Longrightarrow> (if b then sound mail' else mail' = mail) \<and> sigint mail' = sigint mail"
  "tcp_REPLY seq iss mail = Inr (b, mail') \<Longrightarrow> (if b then sound mail' else mail' = mail) \<and> sigint mail' = sigint mail"
  "tcp_AUTH seq iss mail = Inr (b, mail') \<Longrightarrow> (if b then sound mail' else mail' = mail) \<and> sigint mail' = sigint mail"
  "tcp_JOIN seq iss mail = Inr (b, mail') \<Longrightarrow> (if b then sound mail' else mail' = mail) \<and> sigint mail' = sigint mail"
  "tcp_MSG seq iss mail = Inr (b, mail') \<Longrightarrow> (if b then sound mail' else mail' = mail) \<and> sigint mail' = sigint mail"
  by (auto simp: tcp_defs result_simps typed_fill case_prod_beta Let_def split: if_splits)

lemma writeTCPMail_sound:
  "writeTCPMail seq buffer mail = Inr (out, b, mail') \<Longrightarrow> mdata mail = ConfirmMessage 0 \<Longrightarrow>
    (if b then sound mail' else mail' = mail) \<and> sigint mail' = sigint mail"
  by (auto simp: writeTCPMail_def result_simps case_prod_beta Let_def sound_def typed_def
      split: if_splits dest!: tcp_sound)

lemma writeMail_line_sound:
  "writeMail_line line mail mb = Inr (out, b, mail', mb') \<Longrightarrow>
    b \<and> (addToMailQueue mail' \<longrightarrow> queued mail' \<and> mtype mail' \<in> {Some AUTH, Some JOIN, Some MSG}) \<and>
    sigint mail' = sigint mail \<and> (\<exists>dN. mb' = mb\<lparr>displayName := dN\<rparr>)"
  by (auto simp: writeMail_line_def result_simps typed_fill queued_def Let_def case_prod_beta
      split: if_splits intro: exI [of _ "displayName mb"])

lemma writeMail_type_sound:
  "writeMail_type t mail ref mb = Inr mail' \<Longrightarrow>
    sound mail' \<and> addToMailQueue mail' = addToMailQueue mail \<and> sigint mail' = sigint mail"
  by (auto simp: writeMail_type_def result_simps Let_def sound_defs split: MessageType.splits)

subsection \<open>What sending does\<close>

lemma set_MessageID_type [simp]: "data_type (set_MessageID n d) = data_type d"
  by (cases d) auto

lemma set_MessageID_valid [simp]: "valid_data (set_MessageID n d) = valid_data d"
  by (cases d) auto

lemma set_MessageID_id: "numbered d \<Longrightarrow> data_MessageID (set_MessageID n d) = uint n"
  by (cases d) auto

lemma set_MessageID_other: "\<not> numbered d \<Longrightarrow> set_MessageID n d = d"
  by (cases d) auto

definition renumber :: "u16 \<Rightarrow> Mail \<Rightarrow> Mail" where
  "renumber n m = m\<lparr>mdata := set_MessageID n (mdata m)\<rparr>"

lemma renumber_sel [simp]:
  "mtype (renumber n m) = mtype m" "addToMailQueue (renumber n m) = addToMailQueue m"
  "sigint (renumber n m) = sigint m" "mdata (renumber n m) = set_MessageID n (mdata m)"
  by (simp_all add: renumber_def)

lemma sound_renumber [simp]: "sound (renumber n m) = sound m"
  by (cases "mdata m") (auto simp: sound_defs)

text \<open>A mailbox whose notification pipe is open.\<close>

definition linked :: "Pipe \<Rightarrow> MailBox \<Rightarrow> Kernel \<Rightarrow> bool" where
  "linked p mb k \<longleftrightarrow> notifyListenerPipe mb = Some p \<and> open_pipe p k"

lemma sendMail_linked:
  assumes "linked p mb k" and "addToMailQueue m"
  shows "\<exists>k'. sendMail m mb k = Inr (renumber (sequenceUDPNumber mb) m,
      mb\<lparr>sequenceUDPNumber := sequenceUDPNumber mb + of_bool (numbered (mdata m)),
         outgoingMails := outgoingMails mb @ [renumber (sequenceUDPNumber mb) m]\<rparr>, k') \<and>
    fds k' = fds k \<and> nonblock k' = nonblock k \<and> pending p k' = pending p k @ ''1'' \<and>
    (\<forall>q. apart p q k \<longrightarrow> pending q k' = pending q k)"
proof -
  obtain k' where k': "Pipe_write p ''1'' k = Inr k'" "fds k' = fds k" "nonblock k' = nonblock k"
    "pending p k' = pending p k @ ''1''" "\<forall>q. apart p q k \<longrightarrow> pending q k' = pending q k"
    using assms(1) Pipe_write_open [of p k "''1''"] by (auto simp: linked_def)
  then show ?thesis using assms
    by (intro exI [of _ k']) (auto simp: sendMail_def linked_def renumber_def Let_def)
qed

subsection \<open>The post office the state machine works with\<close>

text \<open>
  What the state machine relies on: a mail it makes has the type it asked for, a mail it
  sends is appended to the outbox with its type, and the inbox is left alone.
\<close>

locale post_office =
  fixes good :: "'b \<Rightarrow> 'k \<Rightarrow> bool"
    and inbox :: "'b \<Rightarrow> Mail list"
    and outbox :: "'b \<Rightarrow> Mail list"
    and make :: "MessageType \<Rightarrow> Mail \<Rightarrow> 'b \<Rightarrow> Mail result"
    and send :: "Mail \<Rightarrow> 'b \<Rightarrow> 'k \<Rightarrow> (Mail \<times> 'b \<times> 'k) result"
  assumes make_ok: "good b k \<Longrightarrow> t \<in> {ERR, BYE} \<Longrightarrow> addToMailQueue m \<Longrightarrow>
      \<exists>m'. make t m b = Inr m' \<and> mtype m' = Some t \<and> queued m'"
    and send_ok: "good b k \<Longrightarrow> queued m \<Longrightarrow>
      \<exists>m' b' k'. send m b k = Inr (m', b', k') \<and> good b' k' \<and> queued m' \<and> mtype m' = mtype m \<and>
        inbox b' = inbox b \<and> outbox b' = outbox b @ [m']"
begin

lemma make_and_send:
  assumes "good b k" and "t \<in> {ERR, BYE}" and "addToMailQueue m"
  shows "\<exists>m' b' k'. rbind (make t m b) (\<lambda>m. send m b k) = Inr (m', b', k') \<and> good b' k' \<and>
    queued m' \<and> mtype m' = Some t \<and> inbox b' = inbox b \<and> outbox b' = outbox b @ [m']"
proof -
  obtain m1 where "make t m b = Inr m1" "mtype m1 = Some t" "queued m1"
    using make_ok assms by blast
  with send_ok [OF assms(1), of m1] show ?thesis by auto
qed

end

text \<open>
  The mailbox provides it as long as its pipe is open and its display name is one the
  ERR message accepts.
\<close>

definition in_order :: "Pipe \<Rightarrow> MailBox \<Rightarrow> Kernel \<Rightarrow> bool" where
  "in_order p mb k \<longleftrightarrow> linked p mb k \<and> valid_name (displayName mb) \<and>
     length (pending p k) = length (outgoingMails mb)"

lemma MessageContent_valid [simp]: "valid_content ''MessageContent''"
  by (simp add: valid_content_def in_range_def code_def)

lemma default_valid_name [simp]: "valid_name ''default''"
  by (simp add: valid_name_def in_range_def code_def)

interpretation mailbox: post_office "in_order p" incomingMails outgoingMails
  "\<lambda>t (m :: Mail). writeMail_type t m (-1)" sendMail for p
proof
  fix b k t and m :: Mail assume "in_order p b k" "t \<in> {ERR, BYE}" "addToMailQueue m"
  then show "\<exists>m'. writeMail_type t m (- 1) b = Inr m' \<and> mtype m' = Some t \<and> queued m'"
    by (auto simp: writeMail_type_def Let_def in_order_def sound_defs)
next
  fix b k m assume g: "in_order p b k" and m: "queued m"
  then show "\<exists>m' b' k'. sendMail m b k = Inr (m', b', k') \<and> in_order p b' k' \<and> queued m' \<and>
      mtype m' = mtype m \<and> incomingMails b' = incomingMails b \<and> outgoingMails b' = outgoingMails b @ [m']"
  proof -
    have l: "linked p b k" "addToMailQueue m" using g m by (simp_all add: in_order_def queued_def)
    obtain k' where k': "sendMail m b k = Inr (renumber (sequenceUDPNumber b) m,
        b\<lparr>sequenceUDPNumber := sequenceUDPNumber b + of_bool (numbered (mdata m)),
          outgoingMails := outgoingMails b @ [renumber (sequenceUDPNumber b) m]\<rparr>, k')"
      "fds k' = fds k" "pending p k' = pending p k @ ''1''"
      using sendMail_linked [OF l] by blast
    have o: "open_pipe p k'" using g by (simp add: in_order_def linked_def open_pipe_fds [OF k'(2)])
    show ?thesis
      unfolding k'(1)
      by (intro exI conjI, rule refl)
        (use g m o k'(3) in \<open>simp_all add: in_order_def linked_def queued_def\<close>)
  qed
qed

subsection \<open>Command lines\<close>

definition commands :: "string list" where
  "commands = [''/auth'', ''/join'', ''/rename'', ''/help'', ''/print'']"

lemma command_tokens:
  "token ''/auth''" "token ''/join''" "token ''/rename''" "token ''/help''" "token ''/print''"
  by (simp_all add: token_def isspace_def in_range_def code_def)

lemmas read_command = command_tokens [THEN read_word_token, OF isspace_SP, simplified]
  command_tokens [THEN read_word_token_end, simplified]

lemma writeMail_line_text:
  "fst (read_word line) \<notin> set commands \<Longrightarrow>
    writeMail_line line mail mb =
      rbind (mkTextMessage (uint (sequenceUDPNumber mb)) (displayName mb) line) (\<lambda>textMsg.
      Inr ([], True, fill mail MSG True
        (case textMsg of TextMessage _ n d m \<Rightarrow> TextMessage True n d m | d \<Rightarrow> d), mb))"
  by (simp add: writeMail_line_def commands_def case_prod_beta Let_def)

lemma writeMail_auth:
  assumes "valid_username u" and "valid_secret s" and "valid_name d"
  shows "writeMail_line (''/auth '' @ u @ SP # s @ SP # d) mail mb =
    Inr ([], True, fill mail AUTH True (AuthMessage (sequenceUDPNumber mb) u d s), mb\<lparr>displayName := d\<rparr>)"
  using assms
  by (simp add: writeMail_line_def read_command stream_simps
      read_word_token [OF valid_token(1) isspace_SP] read_word_token [OF valid_token(3) isspace_SP]
      read_word_token_end [OF valid_token(2)] read_word_token_end [OF valid_token(4)])

subsection \<open>Sending a sequence of mails\<close>

definition send_step :: "Mail \<Rightarrow> MailBox \<times> Kernel \<Rightarrow> (MailBox \<times> Kernel) result" where
  "send_step m s = rbind (sendMail m (fst s) (snd s)) (\<lambda>(_, s). Inr s)"

lemma send_step_in_order:
  assumes "in_order p mb k" and "queued m" and "numbered (mdata m)"
  shows "\<exists>k'. send_step m (mb, k) = Inr (mb\<lparr>sequenceUDPNumber := sequenceUDPNumber mb + 1,
      outgoingMails := outgoingMails mb @ [renumber (sequenceUDPNumber mb) m]\<rparr>, k') \<and>
    in_order p (mb\<lparr>sequenceUDPNumber := sequenceUDPNumber mb + 1,
      outgoingMails := outgoingMails mb @ [renumber (sequenceUDPNumber mb) m]\<rparr>) k'"
proof -
  have l: "linked p mb k" "addToMailQueue m" using assms by (simp_all add: in_order_def queued_def)
  obtain k' where k': "sendMail m mb k = Inr (renumber (sequenceUDPNumber mb) m,
      mb\<lparr>sequenceUDPNumber := sequenceUDPNumber mb + of_bool (numbered (mdata m)),
        outgoingMails := outgoingMails mb @ [renumber (sequenceUDPNumber mb) m]\<rparr>, k')"
    "fds k' = fds k" "pending p k' = pending p k @ ''1''"
    using sendMail_linked [OF l] by blast
  then show ?thesis
    using assms(1,3) open_pipe_fds [OF k'(2)]
    by (intro exI [of _ k']) (simp add: send_step_def in_order_def linked_def)
qed

lemma outbox_in_order:
  assumes "in_order p mb k" and "list_all (\<lambda>m. queued m \<and> numbered (mdata m)) ms"
  shows "\<exists>mb' k'. rfold send_step ms (mb, k) = Inr (mb', k') \<and> in_order p mb' k' \<and>
    sequenceUDPNumber mb' = sequenceUDPNumber mb + of_nat (length ms) \<and>
    map getMessageID (drop (length (outgoingMails mb)) (outgoingMails mb')) =
      map (\<lambda>i. uint (sequenceUDPNumber mb + of_nat i)) [0..<length ms] \<and>
    take (length (outgoingMails mb)) (outgoingMails mb') = outgoingMails mb"
  using assms
proof (induction ms arbitrary: mb k)
  case (Cons m ms)
  let ?mb = "mb\<lparr>sequenceUDPNumber := sequenceUDPNumber mb + 1,
      outgoingMails := outgoingMails mb @ [renumber (sequenceUDPNumber mb) m]\<rparr>"
  from Cons.prems obtain k1 where k1: "send_step m (mb, k) = Inr (?mb, k1)" "in_order p ?mb k1"
    using send_step_in_order [of p mb k m] by auto
  from Cons.IH [OF k1(2)] Cons.prems obtain mb' k' where
      r: "rfold send_step ms (?mb, k1) = Inr (mb', k')" "in_order p mb' k'"
      "sequenceUDPNumber mb' = sequenceUDPNumber mb + 1 + of_nat (length ms)"
      "map getMessageID (drop (Suc (length (outgoingMails mb))) (outgoingMails mb')) =
        map (\<lambda>i. uint (sequenceUDPNumber mb + 1 + of_nat i)) [0..<length ms]"
      "take (Suc (length (outgoingMails mb))) (outgoingMails mb') =
        outgoingMails mb @ [renumber (sequenceUDPNumber mb) m]"
    by auto
  let ?n = "length (outgoingMails mb)"
  have out: "outgoingMails mb' = (outgoingMails mb @ [renumber (sequenceUDPNumber mb) m]) @
      drop (Suc ?n) (outgoingMails mb')"
    using append_take_drop_id [of "Suc ?n" "outgoingMails mb'"] r(5) by simp
  have d: "drop ?n (outgoingMails mb') =
      renumber (sequenceUDPNumber mb) m # drop (Suc ?n) (outgoingMails mb')"
    by (subst out) simp
  have t: "take ?n (outgoingMails mb') = outgoingMails mb"
    by (subst out) simp
  have "getMessageID (renumber (sequenceUDPNumber mb) m) = uint (sequenceUDPNumber mb)"
    using Cons.prems(2) by (simp add: getMessageID_def set_MessageID_id)
  then show ?case
    using k1(1) r d t
    by (simp add: upt_conv_Cons del: upt_Suc)
      (simp add: map_Suc_upt [symmetric] add.assoc del: upt_Suc map_Suc_upt)
qed simp

subsection \<open>Properties\<close>

text \<open>
  C24. What the commands do: \<open>/auth\<close> with three valid words makes an AUTH mail with the
  current sequence number and adopts its display name, \<open>/join\<close> makes a JOIN mail under the
  current display name, \<open>/rename\<close> only changes the display name, \<open>/help\<close> only prints.
\<close>

theorem command_effects:
  assumes "valid_username u" and "valid_secret s" and "valid_name d"
    and "valid_channel c" and "valid_name (displayName mb)"
  shows "writeMail_line (''/auth '' @ u @ SP # s @ SP # d) mail mb =
      Inr ([], True, fill mail AUTH True (AuthMessage (sequenceUDPNumber mb) u d s), mb\<lparr>displayName := d\<rparr>)
    \<and> writeMail_line (''/join '' @ c) mail mb =
      Inr ([], True, fill mail JOIN True (JoinMessage (uint (sequenceUDPNumber mb)) c (displayName mb)), mb)
    \<and> writeMail_line (''/rename '' @ d) mail mb =
      Inr ([], True, mail\<lparr>addToMailQueue := False\<rparr>, mb\<lparr>displayName := d\<rparr>)
    \<and> writeMail_line ''/help'' mail mb =
      Inr (map (\<lambda>l. Stdout (l @ [LF])) help_lines, True, mail\<lparr>addToMailQueue := False\<rparr>, mb)"
  using assms
  by (simp add: writeMail_line_def read_command stream_simps
      read_word_token [OF valid_token(1) isspace_SP] read_word_token [OF valid_token(3) isspace_SP]
      read_word_token_end [OF valid_token(2)] read_word_token_end [OF valid_token(4)])

theorem command_effects_witness:
  "writeMail_line (''/join '' @ ''general'') default_Mail (new_MailBox UDP None) =
     Inr ([], True, fill default_Mail JOIN True (JoinMessage 0 ''general'' ''default''), new_MailBox UDP None)"
proof -
  have v: "valid_username ''user''" "valid_secret ''pass''" "valid_name ''nick''"
    "valid_channel ''general''" "valid_name (displayName (new_MailBox UDP None))"
    by (simp_all add: valid_defs alnum_dash_def in_range_def code_def new_MailBox_def)
  show ?thesis
    using command_effects [OF v, of default_Mail] by (simp add: new_MailBox_def)
qed

text \<open>
  \<open>/rename\<close> does not check its argument. After it took a word that is no valid display
  name (or none at all), every line that is not a command throws: the text cannot be sent,
  and nothing but another \<open>/rename\<close> or \<open>/auth\<close> repairs it.
\<close>

theorem rename_unchecked:
  assumes "\<not> valid_name w" and "token w \<or> w = []" and "fst (read_word line) \<notin> set commands"
  shows "\<exists>mb'. writeMail_line (''/rename '' @ w) mail mb =
      Inr ([], True, mail\<lparr>addToMailQueue := False\<rparr>, mb') \<and>
    writeMail_line line mail mb' = Inl (rejection ''DisplayName'' w)"
proof -
  have w: "read_word w = (w, [])" using assms(2) by (auto simp: stream_simps)
  have "writeMail_line (''/rename '' @ w) mail mb =
      Inr ([], True, mail\<lparr>addToMailQueue := False\<rparr>, mb\<lparr>displayName := w\<rparr>)"
    using w by (simp add: writeMail_line_def read_command read_word_skip)
  moreover have "writeMail_line line mail (mb\<lparr>displayName := w\<rparr>) = Inl (rejection ''DisplayName'' w)"
    using assms(1) by (simp add: writeMail_line_text [OF assms(3)] mkTextMessage_def validators_eq)
  ultimately show ?thesis by blast
qed

theorem rename_unchecked_witness:
  "\<exists>mb'. writeMail_line (''/rename '' @ []) default_Mail (new_MailBox UDP None) =
      Inr ([], True, default_Mail\<lparr>addToMailQueue := False\<rparr>, mb') \<and>
    writeMail_line ''hello'' default_Mail mb' = Inl (rejection ''DisplayName'' [])"
proof (rule rename_unchecked)
  have "token ''hello''" by (simp add: token_def isspace_def in_range_def code_def)
  then show "fst (read_word ''hello'') \<notin> set commands"
    by (simp add: read_word_token_end commands_def)
qed simp_all

text \<open>
  C23. Mails are numbered in the order they are sent, from the current sequence number on,
  modulo 65536; they leave in that order, and the notification pipe gains one byte for each,
  so it always holds as many bytes as there are mails to send.
\<close>

theorem sends_numbered:
  assumes "in_order p mb k" and "list_all (\<lambda>m. queued m \<and> numbered (mdata m)) ms"
  shows "\<exists>mb' k'. rfold send_step ms (mb, k) = Inr (mb', k') \<and>
    map getMessageID (drop (length (outgoingMails mb)) (outgoingMails mb')) =
      map (\<lambda>i. uint (sequenceUDPNumber mb + of_nat i)) [0..<length ms] \<and>
    length (pending p k') = length (outgoingMails mb')"
  using outbox_in_order [OF assms] by (auto simp: in_order_def)

text \<open>A concrete mailbox on the first pipe of a fresh process.\<close>

lemma new_mailbox_in_order:
  "new_Pipe t k = Inr (p, k') \<Longrightarrow> in_order p (new_MailBox prot (Some p)) k'"
  using new_Pipe_open [of t k p k'] by (simp add: in_order_def linked_def new_MailBox_def)

definition first_pipe :: Pipe where
  "first_pipe = \<lparr>ptype = ToSendPipe, read_fd = 3, write_fd = 4\<rparr>"

definition first_kernel :: Kernel where
  "first_kernel = \<lparr>fds = [(3, Read_end 0), (4, Write_end 0), (0, Other), (1, Other), (2, Other)],
     bufs = (\<lambda>_. []), next_pipe = 1, nonblock = [], fd_limit = 16\<rparr>"

lemma first_pipe_new: "new_Pipe ToSendPipe fresh_kernel = Inr (first_pipe, first_kernel)"
proof -
  have "free_fds fresh_kernel = [3, 4, 5, 6, 7, 8, 9, 10, 11, 12, 13, 14, 15]"
    by (simp add: free_fds_def fresh_kernel_def upt_conv_Cons)
  then show ?thesis
    by (simp add: new_Pipe_def sys_pipe_def first_pipe_def first_kernel_def fresh_kernel_def fun_eq_iff)
qed

lemmas first_in_order = new_mailbox_in_order [OF first_pipe_new]

theorem sends_numbered_witness:
  "\<exists>mb' k'. rfold send_step [fill default_Mail BYE True (ByeMessage 0), fill default_Mail BYE True (ByeMessage 0)]
      (new_MailBox UDP (Some first_pipe), first_kernel) = Inr (mb', k') \<and>
    map getMessageID (outgoingMails mb') = [0, 1] \<and>
    length (pending first_pipe k') = length (outgoingMails mb')"
  using sends_numbered [OF first_in_order [of UDP],
      of "[fill default_Mail BYE True (ByeMessage 0), fill default_Mail BYE True (ByeMessage 0)]"]
  by (simp add: new_MailBox_def sound_defs upt_conv_Cons)

text \<open>
  A byte in the notification pipe stands for a mail: when the listener takes one byte
  and then the next outgoing mail, there is a mail to take, the oldest one, and bytes and
  mails still agree in number afterwards. \<open>front\<close> is never called on an empty queue.
\<close>

theorem notified_mail_available:
  assumes "in_order p mb k" and "pending p k \<noteq> []"
  shows "\<exists>c k'. sys_read (read_fd p) 1 k = (Count [c], k') \<and>
    getOutgoingMail mb = Inr (hd (outgoingMails mb), mb\<lparr>outgoingMails := tl (outgoingMails mb)\<rparr>) \<and>
    in_order p (mb\<lparr>outgoingMails := tl (outgoingMails mb)\<rparr>) k'"
proof -
  obtain r k' where rd: "sys_read (read_fd p) 1 k = (r, k')" by fastforce
  have o: "open_pipe p k" using assms(1) by (simp add: in_order_def linked_def)
  from pipe_channel.get_one [OF o assms(2) rd]
  have k': "r = Count [hd (pending p k)]" "open_pipe p k'" "pending p k' = tl (pending p k)" by auto
  moreover obtain m rest where "outgoingMails mb = m # rest"
    using assms by (cases "outgoingMails mb") (auto simp: in_order_def)
  ultimately show ?thesis
    using assms rd by (auto simp: in_order_def linked_def getOutgoingMail_def)
qed

theorem notified_mail_available_witness:
  "\<exists>mb k c k'. sys_read (read_fd first_pipe) 1 k = (Count [c], k') \<and> outgoingMails mb \<noteq> [] \<and>
    getOutgoingMail mb = Inr (hd (outgoingMails mb), mb\<lparr>outgoingMails := tl (outgoingMails mb)\<rparr>)"
proof -
  have "queued (fill default_Mail BYE True (ByeMessage 0))" by (simp add: sound_defs)
  from mailbox.send_ok [OF first_in_order [of UDP] this] obtain m mb k where
    s: "in_order first_pipe mb k" "outgoingMails mb = outgoingMails (new_MailBox UDP (Some first_pipe)) @ [m]"
    by blast
  then have "pending first_pipe k \<noteq> []" by (auto simp: in_order_def)
  moreover have "outgoingMails mb \<noteq> []" using s(2) by simp
  ultimately show ?thesis using notified_mail_available [OF s(1)] by blast
qed

text \<open>
  A line the user types either throws or makes a mail that is complete before it enters
  the queue: its type is AUTH, JOIN or MSG, its body is of that type and its fields are
  valid. The commands that make no mail leave the queue alone.
\<close>

theorem line_mails_complete:
  assumes "writeMail_line line default_Mail mb = Inr (out, ok, mail, mb')"
  shows "ok \<and> (if addToMailQueue mail
     then queued mail \<and> mtype mail \<in> {Some AUTH, Some JOIN, Some MSG} \<and> addMail mail mb' =
       mb'\<lparr>incomingMails := incomingMails mb @ [mail]\<rparr>
     else addMail mail mb' = mb')"
  using writeMail_line_sound [OF assms] by (auto simp: addMail_def)

theorem line_mails_complete_witness:
  "queued (fill default_Mail MSG True (TextMessage True 0 ''default'' ''hello''))"
proof -
  have t: "token ''hello''" by (simp add: token_def isspace_def in_range_def code_def)
  have "writeMail_line ''hello'' default_Mail (new_MailBox UDP None) =
      Inr ([], True, fill default_Mail MSG True (TextMessage True 0 ''default'' ''hello''), new_MailBox UDP None)"
    using t by (simp add: writeMail_line_text read_word_token_end commands_def new_MailBox_def
        valid_content_def in_range_def code_def)
  from line_mails_complete [OF this] show ?thesis by simp
qed

text \<open>
  \<open>waitMail\<close> takes the mails in the order they were added and never ends in a
  \<open>bad_variant_access\<close> on a queue of complete mails; it prints what the mail calls for.
\<close>

theorem wait_takes_oldest:
  assumes "list_all queued (incomingMails mb)" and "incomingMails mb \<noteq> []"
  shows "\<exists>out. waitMail mb =
    Inr (out, hd (incomingMails mb), mb\<lparr>incomingMails := tl (incomingMails mb)\<rparr>)"
  using assms announce_sound [of "hd (incomingMails mb)"]
  by (cases "incomingMails mb") (auto simp: waitMail_def queued_def)

theorem wait_takes_oldest_witness:
  "\<exists>out. waitMail (addMail (fill default_Mail BYE True (ByeMessage 7)) (new_MailBox UDP None)) =
    Inr (out, fill default_Mail BYE True (ByeMessage 7), new_MailBox UDP None)"
  using wait_takes_oldest [of "addMail (fill default_Mail BYE True (ByeMessage 7)) (new_MailBox UDP None)"]
  by (simp add: addMail_def new_MailBox_def sound_defs)

end
