(* ===== verification/Fsm.thy ===== *)
theory Fsm
  imports Mail_Box
begin

text \<open>
  The class \<open>FSM\<close> of \<open>fsm.h\<close> and \<open>fsm.cpp\<close>. \<open>fsm_iteration\<close> is one turn of the loop of
  \<open>FSM::run\<close>: the switch on the state, the wait for a mail, the switch on its type.
  \<open>fsm_run\<close> repeats it until the machine returns (state END), waits on an empty mailbox or
  a fault ends it. The constructor \<open>AUTH\<close> of \<open>State\<close> hides the one of \<open>MessageType\<close>,
  which is written with its qualifier.
\<close>

datatype State = START | AUTH | OPEN | ERROR | END

record FSM =
  state :: State
  fmail :: Mail

definition new_FSM :: "State \<Rightarrow> FSM" where
  "new_FSM initialState = \<lparr>state = initialState, fmail = default_Mail\<rparr>"

type_synonym fsm_result = "(console list \<times> FSM \<times> MailBox \<times> Kernel) result"

text \<open>The three ways a branch ends: go on in a state, send the mail at hand, or overwrite it
  with an ERR or BYE and send that.\<close>

definition goto :: "console list \<Rightarrow> State \<Rightarrow> Mail \<Rightarrow> MailBox \<Rightarrow> Kernel \<Rightarrow> fsm_result" where
  "goto out s mail mb k = Inr (out, \<lparr>state = s, fmail = mail\<rparr>, mb, k)"

definition forward :: "console list \<Rightarrow> State \<Rightarrow> Mail \<Rightarrow> MailBox \<Rightarrow> Kernel \<Rightarrow> fsm_result" where
  "forward out s mail mb k = rbind (sendMail mail mb k) (\<lambda>(mail, mb, k). goto out s mail mb k)"

definition send_new ::
    "console list \<Rightarrow> MessageType \<Rightarrow> State \<Rightarrow> Mail \<Rightarrow> MailBox \<Rightarrow> Kernel \<Rightarrow> fsm_result" where
  "send_new out t s mail mb k =
     rbind (writeMail_type t mail (-1) mb) (\<lambda>mail. forward out s mail mb k)"

definition unexpected :: "Mail \<Rightarrow> console list result" where
  "unexpected mail = (case mdata mail of
       TextMessage _ _ _ mC \<Rightarrow> Inr [Stderr (''ERR: Unexpected message: '' @ mC @ [LF])]
     | _ \<Rightarrow> Inl Bad_variant_access)"

definition on_START :: "console list \<Rightarrow> MessageType \<Rightarrow> Mail \<Rightarrow> MailBox \<Rightarrow> Kernel \<Rightarrow> fsm_result" where
  "on_START out t mail mb k = (case t of
       MessageType.AUTH \<Rightarrow> forward out AUTH mail mb k
     | ERR \<Rightarrow> (if sigint mail then send_new out BYE END mail mb k
               else send_new out ERR ERROR mail mb k)
     | MSG \<Rightarrow> rbind (unexpected mail) (\<lambda>e. goto (out @ e) START mail mb k)
     | JOIN \<Rightarrow> goto (out @ [Stderr (''ERR: Unexpected message '' @ [LF])]) START mail mb k
     | _ \<Rightarrow> send_new out ERR ERROR mail mb k)"

definition on_AUTH :: "console list \<Rightarrow> MessageType \<Rightarrow> Mail \<Rightarrow> MailBox \<Rightarrow> Kernel \<Rightarrow> fsm_result" where
  "on_AUTH out t mail mb k = (case t of
       REPLY \<Rightarrow> (case mdata mail of
            ReplyMessage _ result _ _ \<Rightarrow> goto out (if result then OPEN else AUTH) mail mb k
          | _ \<Rightarrow> Inl Bad_variant_access)
     | MessageType.AUTH \<Rightarrow> forward out AUTH mail mb k
     | ERR \<Rightarrow> send_new out BYE END mail mb k
     | MSG \<Rightarrow> rbind (unexpected mail) (\<lambda>e. goto (out @ e) AUTH mail mb k)
     | JOIN \<Rightarrow> goto (out @ [Stderr (''ERR: Unexpected message. '' @ [LF])]) AUTH mail mb k
     | _ \<Rightarrow> send_new out ERR ERROR mail mb k)"

definition on_OPEN :: "console list \<Rightarrow> MessageType \<Rightarrow> Mail \<Rightarrow> MailBox \<Rightarrow> Kernel \<Rightarrow> fsm_result" where
  "on_OPEN out t mail mb k = (case t of
       MSG \<Rightarrow> (case mdata mail of
            TextMessage toSend _ _ _ \<Rightarrow>
              (if toSend then forward out OPEN mail mb k else goto out OPEN mail mb k)
          | _ \<Rightarrow> Inl Bad_variant_access)
     | REPLY \<Rightarrow> goto out OPEN mail mb k
     | ERR \<Rightarrow> send_new out BYE END mail mb k
     | BYE \<Rightarrow> goto out END mail mb k
     | JOIN \<Rightarrow> forward out OPEN mail mb k
     | MessageType.AUTH \<Rightarrow>
         goto (out @ [Stderr (''ERR: User already authenticated.'' @ [LF])]) OPEN mail mb k
     | _ \<Rightarrow> send_new out ERR ERROR mail mb k)"

definition with_mail ::
    "(console list \<Rightarrow> MessageType \<Rightarrow> Mail \<Rightarrow> MailBox \<Rightarrow> Kernel \<Rightarrow> fsm_result) \<Rightarrow>
     MailBox \<Rightarrow> Kernel \<Rightarrow> fsm_result" where
  "with_mail handler mb k =
     rbind (waitMail mb) (\<lambda>(out, mail, mb). case mtype mail of
         None \<Rightarrow> Inl (Undefined Uninitialised)
       | Some t \<Rightarrow> handler out t mail mb k)"

definition fsm_iteration :: "FSM \<Rightarrow> MailBox \<Rightarrow> Kernel \<Rightarrow> fsm_result" where
  "fsm_iteration fsm mb k = (case state fsm of
       START \<Rightarrow> with_mail on_START mb k
     | AUTH \<Rightarrow> with_mail on_AUTH mb k
     | OPEN \<Rightarrow> with_mail on_OPEN mb k
     | ERROR \<Rightarrow> send_new [] BYE END (fmail fsm) mb k
     | END \<Rightarrow> Inr ([], fsm, mb, k))"

datatype run_end = Returned | Stopped fault | Out_of_fuel

fun fsm_run :: "nat \<Rightarrow> FSM \<Rightarrow> MailBox \<Rightarrow> Kernel \<Rightarrow>
    run_end \<times> console list \<times> FSM \<times> MailBox \<times> Kernel" where
  "fsm_run 0 fsm mb k = (Out_of_fuel, [], fsm, mb, k)"
| "fsm_run (Suc n) fsm mb k =
     (if state fsm = END then (Returned, [], fsm, mb, k)
      else case fsm_iteration fsm mb k of
        Inl e \<Rightarrow> (Stopped e, [], fsm, mb, k)
      | Inr (out, fsm', mb', k') \<Rightarrow>
          (case fsm_run n fsm' mb' k' of (r, out', rest) \<Rightarrow> (r, out @ out', rest)))"

subsection \<open>The protocol the machine implements\<close>

text \<open>
  The transition table of the client: the state a mail leads to and the types of the mails
  sent on it.
\<close>

fun protocol :: "State \<Rightarrow> Mail \<Rightarrow> State \<times> MessageType list" where
  "protocol START m = (case mtype m of
       Some MessageType.AUTH \<Rightarrow> (AUTH, [MessageType.AUTH])
     | Some ERR \<Rightarrow> if sigint m then (END, [BYE]) else (ERROR, [ERR])
     | Some MSG \<Rightarrow> (START, [])
     | Some JOIN \<Rightarrow> (START, [])
     | _ \<Rightarrow> (ERROR, [ERR]))"
| "protocol AUTH m = (case mtype m of
       Some REPLY \<Rightarrow> (if (\<exists>n ref c. mdata m = ReplyMessage n True ref c) then OPEN else AUTH, [])
     | Some MessageType.AUTH \<Rightarrow> (AUTH, [MessageType.AUTH])
     | Some ERR \<Rightarrow> (END, [BYE])
     | Some MSG \<Rightarrow> (AUTH, [])
     | Some JOIN \<Rightarrow> (AUTH, [])
     | _ \<Rightarrow> (ERROR, [ERR]))"
| "protocol OPEN m = (case mtype m of
       Some MSG \<Rightarrow> (OPEN, if (\<exists>n d c. mdata m = TextMessage True n d c) then [MSG] else [])
     | Some REPLY \<Rightarrow> (OPEN, [])
     | Some ERR \<Rightarrow> (END, [BYE])
     | Some BYE \<Rightarrow> (END, [])
     | Some JOIN \<Rightarrow> (OPEN, [JOIN])
     | Some MessageType.AUTH \<Rightarrow> (OPEN, [])
     | _ \<Rightarrow> (ERROR, [ERR]))"
| "protocol ERROR m = (END, [BYE])"
| "protocol END m = (END, [])"

text \<open>States in which the machine takes a mail.\<close>

definition listening :: "State \<Rightarrow> bool" where
  "listening s \<longleftrightarrow> s \<in> {START, AUTH, OPEN}"

definition sent_types :: "MailBox \<Rightarrow> MailBox \<Rightarrow> MessageType list" where
  "sent_types mb mb' =
     map (the \<circ> mtype) (drop (length (outgoingMails mb)) (outgoingMails mb'))"

text \<open>The invariant of the machine with its mailbox.\<close>

definition fsm_inv :: "Pipe \<Rightarrow> FSM \<Rightarrow> MailBox \<Rightarrow> Kernel \<Rightarrow> bool" where
  "fsm_inv p fsm mb k \<longleftrightarrow> in_order p mb k \<and> list_all queued (incomingMails mb) \<and>
     (state fsm = ERROR \<longrightarrow> addToMailQueue (fmail fsm))"

text \<open>What an ended branch looks like: the next state, the inbox \<open>ms\<close>, the mails sent.\<close>

definition ends :: "Pipe \<Rightarrow> MailBox \<Rightarrow> State \<times> MessageType list \<Rightarrow> Mail list \<Rightarrow> fsm_result \<Rightarrow> bool" where
  "ends p mb nxt ms r \<longleftrightarrow> (\<exists>out fsm' mb' k'. r = Inr (out, fsm', mb', k') \<and>
     state fsm' = fst nxt \<and> addToMailQueue (fmail fsm') \<and> in_order p mb' k' \<and>
     incomingMails mb' = ms \<and> take (length (outgoingMails mb)) (outgoingMails mb') = outgoingMails mb \<and>
     sent_types mb mb' = snd nxt)"

lemma ends_goto:
  "in_order p mb k \<Longrightarrow> addToMailQueue m \<Longrightarrow> ends p mb (s, []) (incomingMails mb) (goto out s m mb k)"
  by (simp add: ends_def goto_def sent_types_def)

lemma ends_forward:
  assumes "in_order p mb k" and "queued m" and "mtype m = Some t"
  shows "ends p mb (s, [t]) (incomingMails mb) (forward out s m mb k)"
proof -
  obtain m' mb' k' where "sendMail m mb k = Inr (m', mb', k')" "in_order p mb' k'" "queued m'"
    "mtype m' = mtype m" "incomingMails mb' = incomingMails mb"
    "outgoingMails mb' = outgoingMails mb @ [m']"
    using mailbox.send_ok [OF assms(1,2)] by blast
  then show ?thesis
    using assms(3) by (simp add: ends_def forward_def goto_def sent_types_def queued_def)
qed

lemma ends_send_new:
  assumes "in_order p mb k" and "addToMailQueue m" and "t \<in> {ERR, BYE}"
  shows "ends p mb (s, [t]) (incomingMails mb) (send_new out t s m mb k)"
proof -
  obtain m' where "writeMail_type t m (-1) mb = Inr m'" "mtype m' = Some t" "queued m'"
    using mailbox.make_ok [OF assms(1,3,2)] by blast
  then show ?thesis using ends_forward [OF assms(1), of m' t s out] by (simp add: send_new_def)
qed

lemma ends_mono:
  "ends p mb1 nxt ms r \<Longrightarrow> outgoingMails mb1 = outgoingMails mb2 \<Longrightarrow> ends p mb2 nxt ms r"
  by (simp add: ends_def sent_types_def)

lemma on_handlers:
  assumes "in_order p mb k" and "queued m" and "mtype m = Some t"
  shows "ends p mb (protocol START m) (incomingMails mb) (on_START out t m mb k)"
    and "ends p mb (protocol AUTH m) (incomingMails mb) (on_AUTH out t m mb k)"
    and "ends p mb (protocol OPEN m) (incomingMails mb) (on_OPEN out t m mb k)"
  using assms ends_goto [OF assms(1)] ends_forward [OF assms] ends_send_new [OF assms(1)]
  by (cases t; cases "mdata m";
      auto simp: on_START_def on_AUTH_def on_OPEN_def unexpected_def sound_defs)+

lemma with_mail_ends:
  assumes "fsm_inv p fsm mb k" and "incomingMails mb = m # rest"
    and h: "\<And>out t mb'. in_order p mb' k \<Longrightarrow> queued m \<Longrightarrow> mtype m = Some t \<Longrightarrow>
      ends p mb' nxt (incomingMails mb') (h out t m mb' k)"
  shows "ends p mb nxt rest (with_mail h mb k)"
proof -
  have q: "queued m" "in_order p mb k" using assms(1,2) by (auto simp: fsm_inv_def)
  then obtain out t where t: "announce m = Inr out" "mtype m = Some t"
    using announce_sound [of m] by (auto simp: sound_defs)
  let ?mb = "mb\<lparr>incomingMails := rest\<rparr>"
  have "in_order p ?mb k" using q(2) by (simp add: in_order_def linked_def)
  from h [OF this q(1) t(2), of out]
  have "ends p mb nxt rest (h out t m ?mb k)" by (auto elim: ends_mono)
  with t assms(2) show ?thesis by (simp add: with_mail_def waitMail_def)
qed

lemma iteration_ends:
  assumes "fsm_inv p fsm mb k" and "listening (state fsm)" and "incomingMails mb = m # rest"
  shows "ends p mb (protocol (state fsm) m) rest (fsm_iteration fsm mb k)"
  using assms(2) with_mail_ends [OF assms(1,3)] on_handlers
  by (cases "state fsm") (auto simp: fsm_iteration_def listening_def)

lemma iteration_ERROR:
  "fsm_inv p fsm mb k \<Longrightarrow> state fsm = ERROR \<Longrightarrow>
    ends p mb (END, [BYE]) (incomingMails mb) (fsm_iteration fsm mb k)"
  by (auto simp: fsm_iteration_def fsm_inv_def intro: ends_send_new)

lemma iteration_empty:
  "listening (state fsm) \<Longrightarrow> incomingMails mb = [] \<Longrightarrow> fsm_iteration fsm mb k = Inl Blocked"
  by (auto simp: fsm_iteration_def listening_def with_mail_def waitMail_def)

lemma ends_inv:
  "ends p mb nxt ms (Inr (out, fsm', mb', k')) \<Longrightarrow> list_all queued ms \<Longrightarrow> fsm_inv p fsm' mb' k'"
  by (simp add: ends_def fsm_inv_def)

subsection \<open>Whole runs\<close>

fun protocol_run :: "State \<Rightarrow> Mail list \<Rightarrow> State \<times> MessageType list" where
  "protocol_run END ms = (END, [])"
| "protocol_run ERROR ms = (END, [BYE])"
| "protocol_run s [] = (s, [])"
| "protocol_run s (m # ms) =
     (case protocol s m of (s', sent) \<Rightarrow>
        (case protocol_run s' ms of (s'', sent') \<Rightarrow> (s'', sent @ sent')))"

lemma protocol_run_step:
  "listening s \<Longrightarrow> protocol_run s (m # ms) =
    (fst (protocol_run (fst (protocol s m)) ms),
     snd (protocol s m) @ snd (protocol_run (fst (protocol s m)) ms))"
  by (cases s) (auto simp: listening_def case_prod_beta)

lemma protocol_run_empty: "listening s \<Longrightarrow> protocol_run s [] = (s, [])"
  by (cases s) (auto simp: listening_def)

definition run_goal :: "Pipe \<Rightarrow> State \<Rightarrow> MailBox \<Rightarrow>
    run_end \<times> console list \<times> FSM \<times> MailBox \<times> Kernel \<Rightarrow> bool" where
  "run_goal p s mb res \<longleftrightarrow> (case res of (r, out, fsm', mb', k') \<Rightarrow>
     (state fsm', sent_types mb mb') = protocol_run s (incomingMails mb) \<and>
     r = (if state fsm' = END then Returned else Stopped Blocked) \<and>
     take (length (outgoingMails mb)) (outgoingMails mb') = outgoingMails mb \<and>
     (state fsm' \<noteq> END \<longrightarrow> incomingMails mb' = []) \<and> fsm_inv p fsm' mb' k')"

lemma sent_types_trans:
  assumes "take (length (outgoingMails a)) (outgoingMails b) = outgoingMails a"
    and "take (length (outgoingMails b)) (outgoingMails c) = outgoingMails b"
  shows "sent_types a c = sent_types a b @ sent_types b c"
    and "take (length (outgoingMails a)) (outgoingMails c) = outgoingMails a"
proof -
  obtain u v where "outgoingMails b = outgoingMails a @ u" "outgoingMails c = outgoingMails b @ v"
    using assms by (metis append_take_drop_id)
  then show "sent_types a c = sent_types a b @ sent_types b c"
    "take (length (outgoingMails a)) (outgoingMails c) = outgoingMails a"
    by (simp_all add: sent_types_def)
qed

lemma run_goal_step:
  assumes e: "ends p mb nxt ms (fsm_iteration fsm mb k)" and q: "list_all queued ms"
    and ne: "state fsm \<noteq> END"
    and pr: "protocol_run (state fsm) (incomingMails mb) =
      (fst (protocol_run (fst nxt) ms), snd nxt @ snd (protocol_run (fst nxt) ms))"
    and ih: "\<And>fsm' mb' k'. fsm_inv p fsm' mb' k' \<Longrightarrow> incomingMails mb' = ms \<Longrightarrow> state fsm' = fst nxt \<Longrightarrow>
      run_goal p (state fsm') mb' (fsm_run n fsm' mb' k')"
  shows "run_goal p (state fsm) mb (fsm_run (Suc n) fsm mb k)"
proof -
  from e obtain out fsm' mb' k' where it: "fsm_iteration fsm mb k = Inr (out, fsm', mb', k')"
    and s: "state fsm' = fst nxt" "incomingMails mb' = ms" "sent_types mb mb' = snd nxt"
    and t: "take (length (outgoingMails mb)) (outgoingMails mb') = outgoingMails mb"
    by (auto simp: ends_def)
  have "fsm_inv p fsm' mb' k'" using ends_inv e q it by metis
  then have g: "run_goal p (fst nxt) mb' (fsm_run n fsm' mb' k')" using ih s by metis
  obtain r o2 f2 m2 k2 where run: "fsm_run n fsm' mb' k' = (r, o2, f2, m2, k2)"
    by (cases "fsm_run n fsm' mb' k'") auto
  obtain s2 sent2 where p2: "protocol_run (fst nxt) ms = (s2, sent2)" by fastforce
  from g have g2: "(state f2, sent_types mb' m2) = (s2, sent2)"
      "r = (if state f2 = END then Returned else Stopped Blocked)"
      "take (length (outgoingMails mb')) (outgoingMails m2) = outgoingMails mb'"
      "state f2 \<noteq> END \<longrightarrow> incomingMails m2 = []" "fsm_inv p f2 m2 k2"
    using p2 s(2) by (simp_all add: run run_goal_def)
  have "fsm_run (Suc n) fsm mb k = (r, out @ o2, f2, m2, k2)" using it ne run by simp
  moreover have "(state f2, sent_types mb m2) = protocol_run (state fsm) (incomingMails mb)"
    using pr p2 g2(1) s(3) sent_types_trans(1) [OF t g2(3)] by simp
  ultimately show ?thesis
    using g2 sent_types_trans(2) [OF t g2(3)] by (simp add: run_goal_def)
qed

lemma fsm_run_goal:
  "fsm_inv p fsm mb k \<Longrightarrow> length (incomingMails mb) + 2 \<le> n \<Longrightarrow>
    run_goal p (state fsm) mb (fsm_run n fsm mb k)"
proof (induction n arbitrary: fsm mb k)
  case (Suc n)
  have q: "list_all queued (incomingMails mb)" using Suc.prems by (simp add: fsm_inv_def)
  consider "state fsm = END" | "state fsm = ERROR"
    | "listening (state fsm)" "incomingMails mb = []"
    | m rest where "listening (state fsm)" "incomingMails mb = m # rest"
    by (cases "state fsm"; cases "incomingMails mb") (auto simp: listening_def)
  then show ?case
  proof cases
    case 1
    then show ?thesis using Suc.prems by (simp add: run_goal_def sent_types_def)
  next
    case 2
    obtain n' where n: "n = Suc n'" using Suc.prems by (cases n) auto
    show ?thesis
    proof (rule run_goal_step [OF iteration_ERROR [OF Suc.prems(1) 2] q])
      fix fsm' mb' k' assume "fsm_inv p fsm' mb' k'" "state fsm' = fst (END, [BYE])"
      then show "run_goal p (state fsm') mb' (fsm_run n fsm' mb' k')"
        by (simp add: n run_goal_def sent_types_def)
    qed (simp_all add: 2)
  next
    case 3
    then show ?thesis
      using Suc.prems iteration_empty [OF 3]
      by (auto simp: run_goal_def sent_types_def protocol_run_empty listening_def)
  next
    case 4
    show ?thesis
    proof (rule run_goal_step [OF iteration_ends [OF Suc.prems(1) 4]])
      fix fsm' mb' k' assume "fsm_inv p fsm' mb' k'" "incomingMails mb' = rest"
      then show "run_goal p (state fsm') mb' (fsm_run n fsm' mb' k')"
        using Suc.prems(2) 4(2) by (intro Suc.IH) simp_all
    qed (use 4 q in \<open>simp_all add: protocol_run_step, auto simp: listening_def\<close>)
  qed
qed simp

subsection \<open>What the transition table allows\<close>

lemma protocol_run_listening:
  "listening s \<Longrightarrow> ms = m # rest \<Longrightarrow> protocol_run s ms =
    (fst (protocol_run (fst (protocol s m)) rest),
     snd (protocol s m) @ snd (protocol_run (fst (protocol s m)) rest))"
  using protocol_run_step by simp

lemma protocol_shape:
  assumes "listening s"
  shows "(fst (protocol s m) = END \<and> snd (protocol s m) \<in> {[], [BYE]}) \<or>
    (fst (protocol s m) = ERROR \<and> snd (protocol s m) = [ERR]) \<or>
    (listening (fst (protocol s m)) \<and> BYE \<notin> set (snd (protocol s m)))"
  using assms
  by (cases s; cases "mtype m"; (cases "the (mtype m)")?) (auto simp: listening_def)

lemma bye_last_run:
  "BYE \<in> set (snd (protocol_run s ms)) \<Longrightarrow>
    fst (protocol_run s ms) = END \<and> (\<exists>pre. snd (protocol_run s ms) = pre @ [BYE] \<and> BYE \<notin> set pre)"
proof (induction ms arbitrary: s)
  case Nil
  then show ?case by (cases s) auto
next
  case (Cons m ms)
  show ?case
  proof (cases "listening s")
    case True
    note step = protocol_run_step [OF True, of m ms]
    from protocol_shape [OF True, of m] show ?thesis
    proof (elim disjE conjE)
      assume "fst (protocol s m) = END" "snd (protocol s m) \<in> {[], [BYE]}"
      then show ?thesis using Cons.prems by (auto simp: step)
    next
      assume "fst (protocol s m) = ERROR" "snd (protocol s m) = [ERR]"
      then show ?thesis by (auto simp: step intro: exI [of _ "[ERR]"])
    next
      assume *: "listening (fst (protocol s m))" "BYE \<notin> set (snd (protocol s m))"
      then have "BYE \<in> set (snd (protocol_run (fst (protocol s m)) ms))"
        using Cons.prems by (auto simp: step)
      from Cons.IH [OF this] * show ?thesis
        by (auto simp: step intro: exI [of _ "snd (protocol s m) @ _"])
    qed
  next
    case False
    then show ?thesis using Cons.prems by (cases s) (auto simp: listening_def)
  qed
qed

text \<open>A reply that lets the client in.\<close>

definition positive_reply :: "Mail \<Rightarrow> bool" where
  "positive_reply m \<longleftrightarrow> mtype m = Some REPLY \<and> (\<exists>n ref c. mdata m = ReplyMessage n True ref c)"

lemma chat_needs_reply:
  "set (snd (protocol_run s ms)) \<inter> {MSG, JOIN} \<noteq> {} \<Longrightarrow> s \<in> {START, AUTH} \<Longrightarrow>
    (\<exists>m \<in> set ms. positive_reply m) \<and> (s = START \<longrightarrow> MessageType.AUTH \<in> set (snd (protocol_run s ms)))"
proof (induction ms arbitrary: s)
  case Nil
  then show ?case by auto
next
  case (Cons m ms)
  have l: "listening s" using Cons.prems(2) by (auto simp: listening_def)
  note step = protocol_run_step [OF l, of m ms]
  let ?s = "fst (protocol s m)"
  have sent: "set (snd (protocol s m)) \<inter> {MSG, JOIN} = {}"
    using Cons.prems(2) by (cases "mtype m"; (cases "the (mtype m)")?) (auto split: if_splits)
  show ?case
  proof (cases "?s \<in> {START, AUTH}")
    case True
    moreover have "set (snd (protocol_run ?s ms)) \<inter> {MSG, JOIN} \<noteq> {}"
      using Cons.prems(1) sent by (auto simp: step)
    moreover have "s = START \<Longrightarrow> ?s = AUTH \<Longrightarrow> MessageType.AUTH \<in> set (snd (protocol s m))"
      by (cases "mtype m"; (cases "the (mtype m)")?) (auto split: if_splits)
    ultimately show ?thesis
      using Cons.IH [of ?s] unfolding step snd_conv
      by (auto simp del: protocol.simps protocol_run.simps)
  next
    case False
    have "?s = OPEN \<Longrightarrow> s = AUTH \<and> positive_reply m"
      using Cons.prems(2)
      by (cases "mtype m"; (cases "the (mtype m)")?) (auto simp: positive_reply_def split: if_splits)
    moreover have "?s \<noteq> OPEN \<Longrightarrow> False"
      using False Cons.prems(1) sent by (cases ?s) (auto simp: step)
    ultimately show ?thesis by auto
  qed
qed

subsection \<open>Properties\<close>

text \<open>
  C6. One turn of the loop of \<open>FSM::run\<close> does what the transition table says: with a mail in
  the queue and the mailbox in order it takes the oldest mail, goes to the state of the
  table, appends to the outgoing queue exactly the mails of the table, and ends without a
  fault and with its invariant kept.
\<close>

theorem fsm_refines_protocol:
  assumes "fsm_inv p fsm mb k" and "state fsm \<in> {START, AUTH, OPEN}" and "incomingMails mb = m # rest"
  shows "\<exists>out fsm' mb' k'. fsm_iteration fsm mb k = Inr (out, fsm', mb', k') \<and>
    (state fsm', sent_types mb mb') = protocol (state fsm) m \<and>
    incomingMails mb' = rest \<and> fsm_inv p fsm' mb' k'"
proof -
  have e: "ends p mb (protocol (state fsm) m) rest (fsm_iteration fsm mb k)"
    using iteration_ends assms by (simp add: listening_def)
  moreover have "list_all queued rest" using assms(1,3) by (simp add: fsm_inv_def)
  ultimately show ?thesis using ends_inv by (fastforce simp: ends_def)
qed

text \<open>
  C5. The whole run follows the table and stops: on a queue of \<open>n\<close> mails at most \<open>n + 2\<close>
  turns lead either to END, where \<open>run\<close> returns, or to an empty queue, on which it waits;
  no other fault ends it, and the mails sent are those of the table, in its order.
\<close>

theorem fsm_run_refines_protocol:
  assumes "fsm_inv p fsm mb k" and "length (incomingMails mb) + 2 \<le> n"
    and "fsm_run n fsm mb k = (r, out, fsm', mb', k')"
  shows "(state fsm', sent_types mb mb') = protocol_run (state fsm) (incomingMails mb)
    \<and> r = (if state fsm' = END then Returned else Stopped Blocked)
    \<and> (state fsm' \<noteq> END \<longrightarrow> incomingMails mb' = []) \<and> fsm_inv p fsm' mb' k'"
  using fsm_run_goal [OF assms(1,2)] by (simp add: assms(3) run_goal_def)

text \<open>
  C19. Nothing is said before the server lets the client in: from START or AUTH a text
  message or a JOIN is sent only in a run in which a positive REPLY was taken, and from START
  only after an AUTH was sent.
\<close>

theorem no_chat_before_reply:
  assumes "fsm_inv p fsm mb k" and "state fsm \<in> {START, AUTH}"
    and "length (incomingMails mb) + 2 \<le> n" and "fsm_run n fsm mb k = (r, out, fsm', mb', k')"
    and "MSG \<in> set (sent_types mb mb') \<or> JOIN \<in> set (sent_types mb mb')"
  shows "(\<exists>m \<in> set (incomingMails mb). positive_reply m) \<and>
    (state fsm = START \<longrightarrow> MessageType.AUTH \<in> set (sent_types mb mb'))"
proof -
  have "sent_types mb mb' = snd (protocol_run (state fsm) (incomingMails mb))"
    using fsm_run_goal [OF assms(1,3)] by (auto simp: assms(4) run_goal_def prod_eq_iff)
  then show ?thesis
    using assms(2,5) chat_needs_reply [of "state fsm" "incomingMails mb"] by auto
qed

text \<open>
  C20. A BYE is the last mail of the machine: it is sent at most once, nothing follows it, and
  the run that sent it has ended.
\<close>

theorem bye_is_last:
  assumes "fsm_inv p fsm mb k" and "length (incomingMails mb) + 2 \<le> n"
    and "fsm_run n fsm mb k = (r, out, fsm', mb', k')" and "BYE \<in> set (sent_types mb mb')"
  shows "r = Returned \<and> (\<exists>pre. sent_types mb mb' = pre @ [BYE] \<and> BYE \<notin> set pre)"
proof -
  have "(state fsm', sent_types mb mb') = protocol_run (state fsm) (incomingMails mb)"
    "r = (if state fsm' = END then Returned else Stopped Blocked)"
    using fsm_run_goal [OF assms(1,2)] by (simp_all add: assms(3) run_goal_def)
  then show ?thesis
    using bye_last_run [of "state fsm" "incomingMails mb"] assms(4) by (auto simp: prod_eq_iff)
qed

text \<open>
  From every state in which the machine listens, an ERR mail (the one SIGINT causes, or
  one from the server) makes the run return, with a BYE sent.
\<close>

theorem error_ends_session:
  assumes "fsm_inv p fsm mb k" and "state fsm \<in> {START, AUTH, OPEN}"
    and "incomingMails mb = m # rest" and "mtype m = Some ERR"
    and "length (incomingMails mb) + 2 \<le> n" and "fsm_run n fsm mb k = (r, out, fsm', mb', k')"
  shows "r = Returned \<and> BYE \<in> set (sent_types mb mb')"
proof -
  have "(state fsm', sent_types mb mb') = protocol_run (state fsm) (m # rest)"
    "r = (if state fsm' = END then Returned else Stopped Blocked)"
    using fsm_run_goal [OF assms(1,5)] by (simp_all add: assms(3,6) run_goal_def)
  then show ?thesis using assms(2,4) by (auto split: if_splits)
qed

text \<open>
  A BYE of the server in state OPEN ends the machine at once and in silence: the run
  returns and no mail, in particular no BYE, is sent.
\<close>

theorem server_bye_ends_silently:
  assumes "fsm_inv p fsm mb k" and "state fsm = OPEN"
    and "incomingMails mb = m # rest" and "mtype m = Some BYE"
    and "length (incomingMails mb) + 2 \<le> n" and "fsm_run n fsm mb k = (r, out, fsm', mb', k')"
  shows "r = Returned \<and> sent_types mb mb' = []"
proof -
  have "(state fsm', sent_types mb mb') = protocol_run (state fsm) (m # rest)"
    "r = (if state fsm' = END then Returned else Stopped Blocked)"
    using fsm_run_goal [OF assms(1,5)] by (simp_all add: assms(3,6) run_goal_def)
  then show ?thesis using assms(2,4) by simp
qed

subsection \<open>Concrete runs\<close>

definition demo_box :: "Mail list \<Rightarrow> MailBox" where
  "demo_box ms = (new_MailBox UDP (Some first_pipe))\<lparr>incomingMails := ms\<rparr>"

definition demo_fsm :: "State \<Rightarrow> FSM" where
  "demo_fsm s = new_FSM s"

lemma demo_inv: "list_all queued ms \<Longrightarrow> fsm_inv first_pipe (demo_fsm s) (demo_box ms) first_kernel"
  using first_in_order [of UDP]
  by (simp add: fsm_inv_def demo_fsm_def demo_box_def new_FSM_def in_order_def linked_def)

lemma demo_sel [simp]:
  "state (demo_fsm s) = s" "incomingMails (demo_box ms) = ms" "outgoingMails (demo_box ms) = []"
  by (simp_all add: demo_fsm_def new_FSM_def demo_box_def new_MailBox_def)

definition sigint_mail :: Mail where
  "sigint_mail = (fill default_Mail ERR True (ErrorMessage 0 ''default'' ''MessageContent''))\<lparr>sigint := True\<rparr>"

definition bye_mail :: Mail where
  "bye_mail = fill default_Mail BYE True (ByeMessage 9)"

definition auth_mail :: Mail where
  "auth_mail = fill default_Mail MessageType.AUTH True (AuthMessage 0 ''user'' ''nick'' ''pass'')"

definition reply_mail :: Mail where
  "reply_mail = fill default_Mail REPLY True (ReplyMessage 0 True 0 ''ok'')"

definition text_mail :: Mail where
  "text_mail = fill default_Mail MSG True (TextMessage True 0 ''nick'' ''hello'')"

lemmas demo_mails = sigint_mail_def bye_mail_def auth_mail_def reply_mail_def text_mail_def

lemma demo_queued [simp]:
  "queued sigint_mail" "queued bye_mail" "queued auth_mail" "queued reply_mail" "queued text_mail"
  by (simp_all add: demo_mails sound_defs valid_defs alnum_dash_def in_range_def code_def)

lemma demo_types [simp]:
  "mtype sigint_mail = Some ERR" "mtype bye_mail = Some BYE"
  "mtype auth_mail = Some MessageType.AUTH" "mtype reply_mail = Some REPLY"
  "mtype text_mail = Some MSG" "sigint sigint_mail"
  "mdata reply_mail = ReplyMessage 0 True 0 ''ok''"
  "mdata text_mail = TextMessage True 0 ''nick'' ''hello''"
  by (simp_all add: demo_mails)

theorem fsm_refines_protocol_witness:
  "\<exists>out fsm' mb' k'. fsm_iteration (demo_fsm START) (demo_box [sigint_mail]) first_kernel =
      Inr (out, fsm', mb', k') \<and>
    (state fsm', sent_types (demo_box [sigint_mail]) mb') = (END, [BYE]) \<and>
    incomingMails mb' = [] \<and> fsm_inv first_pipe fsm' mb' k'"
  using fsm_refines_protocol [OF demo_inv [of "[sigint_mail]" START]] by simp

theorem fsm_run_refines_protocol_witness:
  "\<exists>r out fsm' mb' k'. fsm_run 5 (demo_fsm START) (demo_box [auth_mail, reply_mail, text_mail]) first_kernel =
      (r, out, fsm', mb', k') \<and>
    (state fsm', sent_types (demo_box [auth_mail, reply_mail, text_mail]) mb') =
      (OPEN, [MessageType.AUTH, MSG]) \<and> r = Stopped Blocked"
proof -
  obtain r out fsm' mb' k' where run: "fsm_run 5 (demo_fsm START)
      (demo_box [auth_mail, reply_mail, text_mail]) first_kernel = (r, out, fsm', mb', k')"
    by (rule prod_cases5)
  have inv: "fsm_inv first_pipe (demo_fsm START) (demo_box [auth_mail, reply_mail, text_mail]) first_kernel"
    by (rule demo_inv) simp
  show ?thesis using fsm_run_refines_protocol [OF inv _ run] run by simp
qed

theorem no_chat_before_reply_witness:
  "\<exists>r out fsm' mb' k'. fsm_run 5 (demo_fsm START) (demo_box [auth_mail, reply_mail, text_mail]) first_kernel =
      (r, out, fsm', mb', k') \<and>
    MSG \<in> set (sent_types (demo_box [auth_mail, reply_mail, text_mail]) mb') \<and>
    (\<exists>m \<in> {auth_mail, reply_mail, text_mail}. positive_reply m) \<and>
    MessageType.AUTH \<in> set (sent_types (demo_box [auth_mail, reply_mail, text_mail]) mb')"
proof -
  obtain r out fsm' mb' k' where run: "fsm_run 5 (demo_fsm START)
      (demo_box [auth_mail, reply_mail, text_mail]) first_kernel = (r, out, fsm', mb', k')"
    by (rule prod_cases5)
  have inv: "fsm_inv first_pipe (demo_fsm START) (demo_box [auth_mail, reply_mail, text_mail]) first_kernel"
    by (rule demo_inv) simp
  have "sent_types (demo_box [auth_mail, reply_mail, text_mail]) mb' = [MessageType.AUTH, MSG]"
    using fsm_run_goal [OF inv, of 5] by (simp add: run run_goal_def)
  with no_chat_before_reply [OF inv _ _ run] run show ?thesis by simp
qed

theorem bye_is_last_witness:
  "\<exists>r out fsm' mb' k'. fsm_run 3 (demo_fsm OPEN) (demo_box [sigint_mail]) first_kernel =
      (r, out, fsm', mb', k') \<and> r = Returned \<and>
    (\<exists>pre. sent_types (demo_box [sigint_mail]) mb' = pre @ [BYE] \<and> BYE \<notin> set pre)"
proof -
  obtain r out fsm' mb' k' where run: "fsm_run 3 (demo_fsm OPEN) (demo_box [sigint_mail]) first_kernel =
      (r, out, fsm', mb', k')" by (rule prod_cases5)
  have inv: "fsm_inv first_pipe (demo_fsm OPEN) (demo_box [sigint_mail]) first_kernel"
    by (rule demo_inv) simp
  have "BYE \<in> set (sent_types (demo_box [sigint_mail]) mb')"
    using fsm_run_goal [OF inv, of 3] by (simp add: run run_goal_def)
  with bye_is_last [OF inv _ run] run show ?thesis by simp
qed

theorem error_ends_session_witness:
  "\<exists>r out fsm' mb' k'. fsm_run 3 (demo_fsm AUTH) (demo_box [sigint_mail]) first_kernel =
      (r, out, fsm', mb', k') \<and> r = Returned \<and> BYE \<in> set (sent_types (demo_box [sigint_mail]) mb')"
proof -
  obtain r out fsm' mb' k' where run: "fsm_run 3 (demo_fsm AUTH) (demo_box [sigint_mail]) first_kernel =
      (r, out, fsm', mb', k')" by (rule prod_cases5)
  have inv: "fsm_inv first_pipe (demo_fsm AUTH) (demo_box [sigint_mail]) first_kernel"
    by (rule demo_inv) simp
  from error_ends_session [OF inv _ _ _ _ run] run show ?thesis by simp
qed

theorem server_bye_ends_silently_witness:
  "\<exists>r out fsm' mb' k'. fsm_run 3 (demo_fsm OPEN) (demo_box [bye_mail]) first_kernel =
      (r, out, fsm', mb', k') \<and> r = Returned \<and> sent_types (demo_box [bye_mail]) mb' = []"
proof -
  obtain r out fsm' mb' k' where run: "fsm_run 3 (demo_fsm OPEN) (demo_box [bye_mail]) first_kernel =
      (r, out, fsm', mb', k')" by (rule prod_cases5)
  have inv: "fsm_inv first_pipe (demo_fsm OPEN) (demo_box [bye_mail]) first_kernel"
    by (rule demo_inv) simp
  from server_bye_ends_silently [OF inv _ _ _ _ run] run show ?thesis by simp
qed

end
