(* ===== verification/Stop_Watch.thy ===== *)
theory Stop_Watch
  imports Prelude
begin

text \<open>
  The class \<open>StopWatch\<close> of \<open>stopwatch.h\<close>. The readings of the steady clock, in nanoseconds,
  are arguments of the operations that take one.
\<close>

record StopWatch =
  start_time :: int
  end_time :: int
  isStopped :: bool

definition new_StopWatch :: "int \<Rightarrow> StopWatch" where
  "new_StopWatch now = \<lparr>start_time = now, end_time = now, isStopped = False\<rparr>"

definition sw_start :: "int \<Rightarrow> StopWatch \<Rightarrow> StopWatch" where
  "sw_start now sw = sw\<lparr>start_time := now, isStopped := False\<rparr>"

definition sw_stop :: "int \<Rightarrow> StopWatch \<Rightarrow> StopWatch" where
  "sw_stop now sw = sw\<lparr>end_time := now, isStopped := True\<rparr>"

definition sw_reset :: "int \<Rightarrow> StopWatch \<Rightarrow> StopWatch" where
  "sw_reset now sw = sw\<lparr>start_time := now, end_time := now\<rparr>"

text \<open>\<open>duration_cast\<close> to milliseconds truncates towards zero.\<close>

definition to_ms :: "int \<Rightarrow> int" where
  "to_ms d = (if 0 \<le> d then d div 1000000 else - ((- d) div 1000000))"

definition sw_duration :: "int \<Rightarrow> StopWatch \<Rightarrow> int \<times> StopWatch" where
  "sw_duration now sw =
     (let sw = (if \<not> isStopped sw then sw\<lparr>end_time := now\<rparr> else sw)
      in (to_ms (end_time sw - start_time sw), sw))"

text \<open>A stopped watch shows the time between start and stop, whenever it is read; a watch
  that is reset after it was stopped shows zero.\<close>

lemma duration_stopped: "sw_duration now (sw_stop t2 (sw_start t1 sw)) =
    (to_ms (t2 - t1), sw_stop t2 (sw_start t1 sw))"
  by (simp add: sw_duration_def sw_stop_def sw_start_def)

lemma duration_reset: "isStopped sw \<Longrightarrow> fst (sw_duration now (sw_reset t sw)) = 0"
  by (simp add: sw_duration_def sw_reset_def to_ms_def)

end
