(* ===== verification/Net.thy ===== *)
theory Net
  imports Serializer Streams
begin

text \<open>
  The classes of \<open>net.h\<close> and \<open>net.cpp\<close>: \<open>NetworkProtocol\<close> with its two implementations
  \<open>TcpProtocol\<close> and \<open>UdpProtocol\<close>, and the wrapper \<open>NetworkConnection\<close>. What the operating
  system answers (the descriptor of a new socket, the outcome of \<open>connect\<close>, the number of
  bytes sent, what arrived) is an argument of the operation that asks; name resolution is
  the parameter \<open>gethostbyname\<close>. \<open>sent\<close> records the payloads handed to the system and
  their destination.
\<close>

type_synonym host_addr = string

record NetworkProtocol =
  protocol_type :: ProtocolType
  ip :: string
  port :: u16
  sockfd :: "int option"                          \<comment> \<open>\<open>None\<close>: not written yet\<close>
  server_addr :: "(host_addr \<times> u16) option"
  conf_timeout :: int
  conf_retries :: int
  sent :: "((host_addr \<times> u16) option \<times> string) list"

definition new_TcpProtocol :: "string \<Rightarrow> u16 \<Rightarrow> NetworkProtocol" where
  "new_TcpProtocol host p =
     \<lparr>protocol_type = TCP, ip = host, port = p, sockfd = None, server_addr = None,
      conf_timeout = -1, conf_retries = -1, sent = []\<rparr>"

definition new_UdpProtocol :: "string \<Rightarrow> u16 \<Rightarrow> u16 \<Rightarrow> u16 \<Rightarrow> NetworkProtocol" where
  "new_UdpProtocol host p timeout retries =
     \<lparr>protocol_type = UDP, ip = host, port = p, sockfd = None, server_addr = None,
      conf_timeout = uint timeout, conf_retries = uint retries, sent = []\<rparr>"

subsection \<open>Opening and closing\<close>

text \<open>\<open>sock\<close> is what \<open>socket\<close> answers.\<close>

definition tcp_createSocket :: "int \<Rightarrow> NetworkProtocol \<Rightarrow> bool \<times> NetworkProtocol" where
  "tcp_createSocket sock c = (0 \<le> sock, c\<lparr>sockfd := Some sock\<rparr>)"

definition udp_createSocket :: "int \<Rightarrow> NetworkProtocol \<Rightarrow> bool \<times> NetworkProtocol" where
  "udp_createSocket sock c = (0 \<le> sock, c\<lparr>sockfd := Some sock\<rparr>)"

lemmas createSocket_defs = tcp_createSocket_def udp_createSocket_def

definition tcp_connectToServer ::
    "(string \<Rightarrow> host_addr option) \<Rightarrow> int \<Rightarrow> NetworkProtocol \<Rightarrow> NetworkProtocol result" where
  "tcp_connectToServer gethostbyname connected c = (case gethostbyname (ip c) of
       None \<Rightarrow> Inl (Runtime_error ''No such host'')
     | Some h_addr \<Rightarrow>
         (if connected < 0 then Inl (Runtime_error ''Connection failed'')
          else Inr (c\<lparr>server_addr := Some (h_addr, port c)\<rparr>)))"

definition udp_connectToServer ::
    "(string \<Rightarrow> host_addr option) \<Rightarrow> NetworkProtocol \<Rightarrow> NetworkProtocol result" where
  "udp_connectToServer gethostbyname c = (case gethostbyname (ip c) of
       None \<Rightarrow> Inl (Runtime_error ''ERROR: no such host'')
     | Some h_addr \<Rightarrow> Inr (c\<lparr>server_addr := Some (h_addr, port c)\<rparr>))"

definition tcp_openConnection ::
    "(string \<Rightarrow> host_addr option) \<Rightarrow> int \<Rightarrow> int \<Rightarrow> NetworkProtocol \<Rightarrow> (bool \<times> NetworkProtocol) result" where
  "tcp_openConnection gethostbyname sock connected c =
     (let (ok, c) = tcp_createSocket sock c in
      if \<not> ok then Inr (False, c)
      else rbind (tcp_connectToServer gethostbyname connected c) (\<lambda>c. Inr (True, c)))"

definition udp_openConnection ::
    "(string \<Rightarrow> host_addr option) \<Rightarrow> int \<Rightarrow> NetworkProtocol \<Rightarrow> (bool \<times> NetworkProtocol) result" where
  "udp_openConnection gethostbyname sock c =
     (let (ok, c) = udp_createSocket sock c in
      if \<not> ok then Inr (False, c)
      else rbind (udp_connectToServer gethostbyname c) (\<lambda>c. Inr (True, c)))"

text \<open>
  \<open>closeConnection\<close> and the destructor of each protocol, with the descriptors they pass to
  \<open>close\<close>. All read \<open>sockfd\<close>.
\<close>

definition tcp_closeConnection :: "NetworkProtocol \<Rightarrow> (bool \<times> int list \<times> NetworkProtocol) result" where
  "tcp_closeConnection c = (case sockfd c of
       None \<Rightarrow> Inl (Undefined Uninitialised)
     | Some fd \<Rightarrow> (if 0 \<le> fd then Inr (True, [fd], c\<lparr>sockfd := Some (-1)\<rparr>) else Inr (True, [], c)))"

definition udp_closeConnection :: "NetworkProtocol \<Rightarrow> (bool \<times> int list \<times> NetworkProtocol) result" where
  "udp_closeConnection c = (case sockfd c of
       None \<Rightarrow> Inl (Undefined Uninitialised)
     | Some fd \<Rightarrow> (if 0 \<le> fd then Inr (True, [fd], c\<lparr>sockfd := Some (-1)\<rparr>) else Inr (True, [], c)))"

definition destroy_TcpProtocol :: "NetworkProtocol \<Rightarrow> int list result" where
  "destroy_TcpProtocol c = (case sockfd c of
       None \<Rightarrow> Inl (Undefined Uninitialised)
     | Some fd \<Rightarrow> Inr (if 0 \<le> fd then [fd] else []))"

definition destroy_UdpProtocol :: "NetworkProtocol \<Rightarrow> int list result" where
  "destroy_UdpProtocol c = (case sockfd c of
       None \<Rightarrow> Inl (Undefined Uninitialised)
     | Some fd \<Rightarrow> Inr (if 0 \<le> fd then [fd] else []))"

lemmas closing_defs = tcp_closeConnection_def udp_closeConnection_def destroy_TcpProtocol_def destroy_UdpProtocol_def

subsection \<open>Sending\<close>

text \<open>\<open>n\<close> is what \<open>send\<close> or \<open>sendto\<close> returns.\<close>

definition hand_over :: "int \<Rightarrow> string \<Rightarrow> NetworkProtocol \<Rightarrow> NetworkProtocol result" where
  "hand_over n buffer c =
     (if n < 0 then Inl (Runtime_error ''Failed to send data'')
      else Inr (c\<lparr>sent := sent c @ [(server_addr c, buffer)]\<rparr>))"

definition tcp_sendData :: "int \<Rightarrow> Mail \<Rightarrow> NetworkProtocol \<Rightarrow> NetworkProtocol result" where
  "tcp_sendData n mail c = rbind (serialize False mail) (\<lambda>buffer. hand_over n buffer c)"

text \<open>
  The argument of the trace printer at the end of \<open>TcpProtocol::sendData\<close>, which is
  evaluated with or without \<open>-v\<close>: a C string made of the serialised bytes. The model of
  \<open>sendData\<close> leaves it out, as its value is only printed.
\<close>

definition tcp_trace_text :: "Mail \<Rightarrow> string result" where
  "tcp_trace_text mail = rbind (serialize False mail) c_str"

definition sendTo :: "string \<Rightarrow> int \<Rightarrow> NetworkProtocol \<Rightarrow> NetworkProtocol result" where
  "sendTo buffer n c = hand_over n buffer c"

definition convertBufferToHexString :: "string \<Rightarrow> string" where
  "convertBufferToHexString buffer =
     concat (map (\<lambda>c. [hex_digit (code c div 16), hex_digit (code c mod 16)]) buffer)"

definition udp_sendData :: "int \<Rightarrow> Mail \<Rightarrow> NetworkProtocol \<Rightarrow> NetworkProtocol result" where
  "udp_sendData n mail c = rbind (serialize True mail) (\<lambda>buffer. sendTo buffer n c)"

subsection \<open>Receiving\<close>

text \<open>What the socket has: an error (EAGAIN or another) or bytes and the port they came from.\<close>

datatype Incoming = Recv_error bool | Recv string u16

text \<open>The bytes go to the front of the caller's buffer; past its end the write overruns it.\<close>

definition store :: "string \<Rightarrow> string \<Rightarrow> string result" where
  "store data buffer =
     (if length data \<le> length buffer then Inr (data @ drop (length data) buffer)
      else Inl (Undefined Overrun))"

definition tcp_receiveData ::
    "Incoming \<Rightarrow> string \<Rightarrow> NetworkProtocol \<Rightarrow> (bool \<times> string \<times> NetworkProtocol) result" where
  "tcp_receiveData incoming buffer c = (case incoming of
       Recv_error _ \<Rightarrow> Inl (Runtime_error ''Failed to receive data'')
     | Recv bytes _ \<Rightarrow> rbind (store (take 1024 bytes) buffer) (\<lambda>buffer. Inr (True, buffer, c)))"

text \<open>
  A datagram is read with a limit of 1500 bytes. The trace line after it makes a C string
  of the buffer. A sender on another port becomes the server's port.
\<close>

definition udp_receiveData ::
    "(string \<Rightarrow> host_addr option) \<Rightarrow> Incoming \<Rightarrow> string \<Rightarrow> NetworkProtocol \<Rightarrow>
     (console list \<times> bool \<times> string \<times> NetworkProtocol) result" where
  "udp_receiveData gethostbyname incoming buffer c = (case incoming of
       Recv_error again \<Rightarrow>
         (if again then Inr ([Stderr (''ERR: No data available to read'' @ [LF])], False, buffer, c)
          else Inl (Runtime_error ''Failed to receive data''))
     | Recv bytes senderPort \<Rightarrow>
         (if bytes = [] then Inl (Runtime_error ''Connection closed by peer'')
          else rbind (store (take 1500 bytes) buffer) (\<lambda>buffer.
               rbind (c_str buffer) (\<lambda>_.
               if senderPort \<noteq> port c
               then rbind (udp_connectToServer gethostbyname (c\<lparr>port := senderPort\<rparr>)) (\<lambda>c.
                    Inr ([], True, buffer, c))
               else Inr ([], True, buffer, c)))))"

subsection \<open>NetworkConnection\<close>

text \<open>The unique pointer is \<open>None\<close> when it holds nothing; the calls are virtual.\<close>

type_synonym NetworkConnection = "NetworkProtocol option"

definition new_NetworkConnection ::
    "ProtocolType \<Rightarrow> string \<Rightarrow> u16 \<Rightarrow> u16 \<Rightarrow> u16 \<Rightarrow> NetworkConnection" where
  "new_NetworkConnection type host p timeout retries =
     (if type = TCP then Some (new_TcpProtocol host p)
      else if type = UDP then Some (new_UdpProtocol host p timeout retries) else None)"

definition sendData :: "int \<Rightarrow> Mail \<Rightarrow> NetworkConnection \<Rightarrow> NetworkConnection result" where
  "sendData n mail conn = (case conn of
       None \<Rightarrow> Inr None
     | Some c \<Rightarrow> rbind ((if protocol_type c = TCP then tcp_sendData else udp_sendData) n mail c)
                   (\<lambda>c. Inr (Some c)))"

definition receiveData ::
    "(string \<Rightarrow> host_addr option) \<Rightarrow> Incoming \<Rightarrow> string \<Rightarrow> NetworkConnection \<Rightarrow>
     (console list \<times> bool \<times> string \<times> NetworkConnection) result" where
  "receiveData gethostbyname incoming buffer conn = (case conn of
       None \<Rightarrow> Inr ([], True, buffer, None)
     | Some c \<Rightarrow>
         (if protocol_type c = TCP
          then rbind (tcp_receiveData incoming buffer c) (\<lambda>(ok, buffer, c). Inr ([], ok, buffer, Some c))
          else rbind (udp_receiveData gethostbyname incoming buffer c)
                 (\<lambda>(out, ok, buffer, c). Inr (out, ok, buffer, Some c))))"

definition conn_openConnection ::
    "(string \<Rightarrow> host_addr option) \<Rightarrow> int \<Rightarrow> int \<Rightarrow> NetworkConnection \<Rightarrow> (bool \<times> NetworkConnection) result" where
  "conn_openConnection gethostbyname sock connected conn = (case conn of
       None \<Rightarrow> Inr (False, None)
     | Some c \<Rightarrow>
         rbind (if protocol_type c = TCP then tcp_openConnection gethostbyname sock connected c
                else udp_openConnection gethostbyname sock c)
           (\<lambda>(ok, c). Inr (ok, Some c)))"

definition conn_closeConnection :: "NetworkConnection \<Rightarrow> (bool \<times> int list \<times> NetworkConnection) result" where
  "conn_closeConnection conn = (case conn of
       None \<Rightarrow> Inr (False, [], None)
     | Some c \<Rightarrow>
         rbind (if protocol_type c = TCP then tcp_closeConnection c else udp_closeConnection c)
           (\<lambda>(ok, closed, c). Inr (ok, closed, Some c)))"

text \<open>The destructor of the unique pointer.\<close>

definition destroy_NetworkConnection :: "NetworkConnection \<Rightarrow> int list result" where
  "destroy_NetworkConnection conn = (case conn of
       None \<Rightarrow> Inr []
     | Some c \<Rightarrow> if protocol_type c = TCP then destroy_TcpProtocol c else destroy_UdpProtocol c)"

definition setProtocol :: "NetworkProtocol option \<Rightarrow> NetworkConnection \<Rightarrow> NetworkConnection" where
  "setProtocol p conn = p"

text \<open>The getters dereference the pointer.\<close>

definition deref :: "(NetworkProtocol \<Rightarrow> 'a) \<Rightarrow> NetworkConnection \<Rightarrow> 'a result" where
  "deref f conn = (case conn of None \<Rightarrow> Inl (Undefined Uninitialised) | Some c \<Rightarrow> Inr (f c))"

definition getFdsocket :: "NetworkConnection \<Rightarrow> int result" where
  "getFdsocket conn = rbind (deref sockfd conn) (\<lambda>s.
     case s of None \<Rightarrow> Inl (Undefined Uninitialised) | Some fd \<Rightarrow> Inr fd)"

definition getTimeout :: "NetworkConnection \<Rightarrow> int result" where
  "getTimeout = deref conf_timeout"

definition getRetries :: "NetworkConnection \<Rightarrow> int result" where
  "getRetries = deref conf_retries"

subsection \<open>Transports\<close>

text \<open>
  The interface of \<open>NetworkProtocol\<close> as the callers of \<open>sendData\<close> use it: a send that
  returns has handed over exactly the encoding of its mail, and a send succeeds when the
  mail has an encoding and the system takes it.
\<close>

locale transport =
  fixes send :: "int \<Rightarrow> Mail \<Rightarrow> 'c \<Rightarrow> 'c result"
    and encode :: "Mail \<Rightarrow> string result"
    and payloads :: "'c \<Rightarrow> string list"
  assumes send_Inr: "send n m c = Inr c' \<Longrightarrow> \<exists>b. encode m = Inr b \<and> payloads c' = payloads c @ [b]"
    and send_ok: "0 \<le> n \<Longrightarrow> encode m = Inr b \<Longrightarrow> \<exists>c'. send n m c = Inr c'"
begin

lemma send_exact:
  "0 \<le> n \<Longrightarrow> encode m = Inr b \<Longrightarrow> \<exists>c'. send n m c = Inr c' \<and> payloads c' = payloads c @ [b]"
  using send_ok send_Inr by fastforce

text \<open>A sequence of sends hands over the encodings in order.\<close>

lemma sends_in_order:
  "rfold (\<lambda>(n, m). send n m) xs c = Inr c' \<Longrightarrow>
    \<exists>bs. map (\<lambda>x. encode (snd x)) xs = map Inr bs \<and> payloads c' = payloads c @ bs"
proof (induction xs arbitrary: c)
  case (Cons x xs)
  obtain n m where x: "x = (n, m)" by fastforce
  with Cons.prems obtain c1 where c1: "send n m c = Inr c1" "rfold (\<lambda>(n, m). send n m) xs c1 = Inr c'"
    by (auto simp: rbind_eq_Inr)
  obtain b where b: "encode m = Inr b" "payloads c1 = payloads c @ [b]"
    using send_Inr [OF c1(1)] by blast
  obtain bs where "map (\<lambda>x. encode (snd x)) xs = map Inr bs" "payloads c' = payloads c1 @ bs"
    using Cons.IH [OF c1(2)] by blast
  with b x show ?case by (intro exI [of _ "b # bs"]) simp
qed simp

end

lemma hand_over_Inr [result_simps]:
  "hand_over n b c = Inr c' \<longleftrightarrow> 0 \<le> n \<and> c' = c\<lparr>sent := sent c @ [(server_addr c, b)]\<rparr>"
  by (auto simp: hand_over_def)

interpretation tcp: transport tcp_sendData "serialize False" "\<lambda>c. map snd (sent c)"
  by unfold_locales (auto simp: tcp_sendData_def result_simps)

interpretation udp: transport udp_sendData "serialize True" "\<lambda>c. map snd (sent c)"
  by unfold_locales (auto simp: udp_sendData_def sendTo_def result_simps)

text \<open>What a connection of a protocol has sent.\<close>

definition conn_payloads :: "NetworkConnection \<Rightarrow> string list" where
  "conn_payloads conn = (case conn of None \<Rightarrow> [] | Some c \<Rightarrow> map snd (sent c))"

definition conn_of :: "ProtocolType \<Rightarrow> NetworkConnection \<Rightarrow> bool" where
  "conn_of t conn \<longleftrightarrow> (case conn of None \<Rightarrow> False | Some c \<Rightarrow> protocol_type c = t)"

definition retry_limit :: "NetworkConnection \<Rightarrow> int option" where
  "retry_limit conn = map_option conf_retries conn"

lemma sendData_Inr:
  assumes "conn_of t conn"
  shows "sendData n mail conn = Inr conn' \<longleftrightarrow>
    (\<exists>c b. conn = Some c \<and> 0 \<le> n \<and> serialize (t = UDP) mail = Inr b \<and>
       conn' = Some (c\<lparr>sent := sent c @ [(server_addr c, b)]\<rparr>))"
  using assms by (cases t)
    (auto simp: sendData_def conn_of_def tcp_sendData_def udp_sendData_def sendTo_def result_simps
      split: option.splits)

lemma sendData_conn:
  "conn_of t conn \<Longrightarrow> sendData n mail conn = Inr conn' \<Longrightarrow>
    conn_of t conn' \<and> retry_limit conn' = retry_limit conn \<and>
    (\<exists>b. serialize (t = UDP) mail = Inr b \<and> conn_payloads conn' = conn_payloads conn @ [b])"
  by (auto simp: sendData_Inr conn_of_def conn_payloads_def retry_limit_def)

lemma receiveData_conn:
  assumes "conn_of t conn" and "receiveData g inc buffer conn = Inr (out, ok, buffer', conn')"
  shows "conn_of t conn' \<and> conn_payloads conn' = conn_payloads conn \<and> retry_limit conn' = retry_limit conn \<and>
    length buffer' = length buffer"
  using assms
  by (auto simp: receiveData_def conn_of_def conn_payloads_def retry_limit_def tcp_receiveData_def udp_receiveData_def
      udp_connectToServer_def store_def result_simps
      split: option.splits Incoming.splits if_splits)

subsection \<open>Properties\<close>

text \<open>
  Mails leave in the order they are handed to the protocol, each as exactly the bytes the
  serialiser makes of it, over TCP and over UDP.
\<close>

theorem payloads_in_order:
  "(rfold (\<lambda>(n, m). tcp_sendData n m) xs c = Inr c' \<longrightarrow>
      (\<exists>bs. map (\<lambda>x. serialize False (snd x)) xs = map Inr bs \<and> map snd (sent c') = map snd (sent c) @ bs))
   \<and> (rfold (\<lambda>(n, m). udp_sendData n m) xs c = Inr c' \<longrightarrow>
      (\<exists>bs. map (\<lambda>x. serialize True (snd x)) xs = map Inr bs \<and> map snd (sent c') = map snd (sent c) @ bs))"
  using tcp.sends_in_order udp.sends_in_order by blast

theorem payloads_in_order_witness:
  "\<exists>c'. rfold (\<lambda>(n, m). udp_sendData n m)
      [(3, default_Mail\<lparr>mtype := Some CONFIRM\<rparr>), (3, default_Mail\<lparr>mtype := Some BYE, mdata := ByeMessage 1\<rparr>)]
      (new_UdpProtocol ''server'' 4567 250 3) = Inr c' \<and>
    map snd (sent c') = [[NUL, NUL, NUL], [CHR 0xFF, NUL, CHR 0x01]]"
proof -
  let ?xs = "[(3 :: int, default_Mail\<lparr>mtype := Some CONFIRM\<rparr>), (3, default_Mail\<lparr>mtype := Some BYE, mdata := ByeMessage 1\<rparr>)]"
  have b: "serialize True (default_Mail\<lparr>mtype := Some CONFIRM\<rparr>) = Inr [NUL, NUL, NUL]"
    "serialize True (default_Mail\<lparr>mtype := Some BYE, mdata := ByeMessage 1\<rparr>) = Inr [CHR 0xFF, NUL, CHR 0x01]"
    by code_simp+
  then obtain c' where c': "rfold (\<lambda>(n, m). udp_sendData n m) ?xs (new_UdpProtocol ''server'' 4567 250 3) = Inr c'"
    by (simp add: udp_sendData_def sendTo_def hand_over_def)
  moreover have "\<exists>bs. map (\<lambda>x. serialize True (snd x)) ?xs = map Inr bs \<and>
      map snd (sent c') = map snd (sent (new_UdpProtocol ''server'' 4567 250 3)) @ bs"
    using payloads_in_order c' by blast
  ultimately show ?thesis using b by (auto simp: new_UdpProtocol_def map_eq_Cons_conv)
qed

text \<open>
  C39. The client follows the server to its port: after a datagram from another port of the
  server's host, the next mail goes to that port.
\<close>

theorem udp_follows_server_port:
  assumes "protocol_type c = UDP" and "gethostbyname (ip c) = Some h" and "p \<noteq> port c"
    and "bytes \<noteq> []" and "length bytes < length buffer" and "length bytes \<le> 1500" and "NUL \<in> set (drop (length bytes) buffer)"
    and "0 \<le> n" and "serialize True m = Inr data"
  shows "\<exists>buffer' c1 c2. receiveData gethostbyname (Recv bytes p) buffer (Some c) = Inr ([], True, buffer', Some c1) \<and>
    take (length bytes) buffer' = bytes \<and>
    sendData n m (Some c1) = Inr (Some c2) \<and> sent c2 = sent c @ [(Some (h, p), data)]"
proof -
  have "\<exists>s. c_str (bytes @ drop (length bytes) buffer) = Inr s" using assms(7) by (auto simp: c_str_def)
  then have "receiveData gethostbyname (Recv bytes p) buffer (Some c) =
      Inr ([], True, bytes @ drop (length bytes) buffer, Some (c\<lparr>port := p, server_addr := Some (h, p)\<rparr>))"
    using assms(1-6) by (auto simp: receiveData_def udp_receiveData_def store_def udp_connectToServer_def)
  moreover have "sendData n m (Some (c\<lparr>port := p, server_addr := Some (h, p)\<rparr>)) =
      Inr (Some (c\<lparr>port := p, server_addr := Some (h, p), sent := sent c @ [(Some (h, p), data)]\<rparr>))"
    using assms(1,8,9) by (simp add: sendData_def udp_sendData_def sendTo_def hand_over_def)
  ultimately show ?thesis by simp
qed

theorem udp_follows_server_port_witness:
  "\<exists>buffer' c1 c2. receiveData (\<lambda>_. Some [CHR ''a'']) (Recv [NUL, NUL, NUL] 40000) (replicate 1024 NUL)
      (Some (new_UdpProtocol ''server'' 4567 250 3)) = Inr ([], True, buffer', Some c1) \<and>
    sendData 3 (default_Mail\<lparr>mtype := Some CONFIRM\<rparr>) (Some c1) = Inr (Some c2) \<and>
    sent c2 = [(Some ([CHR ''a''], 40000), [NUL, NUL, NUL])]"
proof -
  have "serialize True (default_Mail\<lparr>mtype := Some CONFIRM\<rparr>) = Inr [NUL, NUL, NUL]" by code_simp
  then show ?thesis
    using udp_follows_server_port [of "new_UdpProtocol ''server'' 4567 250 3" "\<lambda>_. Some [CHR ''a'']" "[CHR ''a'']"
      40000 "[NUL, NUL, NUL]" "replicate 1024 NUL" 3 "default_Mail\<lparr>mtype := Some CONFIRM\<rparr>" "[NUL, NUL, NUL]"]
    by (auto simp: new_UdpProtocol_def)
qed

text \<open>
  The socket is closed once by its connection, over both protocols: \<open>closeConnection\<close> on an
  open socket closes its descriptor, and neither a second call nor the destructor closes it
  again.
\<close>

theorem socket_closed_once:
  assumes "sockfd c = Some fd" and "0 \<le> fd"
  shows "\<exists>c'. conn_closeConnection (Some c) = Inr (True, [fd], c') \<and>
    conn_closeConnection c' = Inr (True, [], c') \<and> destroy_NetworkConnection c' = Inr []"
  using assms by (auto simp: conn_closeConnection_def destroy_NetworkConnection_def closing_defs)

theorem socket_closed_once_witness:
  "\<exists>c'. conn_closeConnection (Some ((new_TcpProtocol ''server'' 4567)\<lparr>sockfd := Some 3\<rparr>)) = Inr (True, [3], c') \<and>
    destroy_NetworkConnection c' = Inr []"
  using socket_closed_once [of "(new_TcpProtocol ''server'' 4567)\<lparr>sockfd := Some 3\<rparr>" 3] by auto

text \<open>
  Every send over TCP reads past the end of a buffer: the trace line after it makes a C
  string of the serialised bytes, which hold no terminator for any valid message.
\<close>

theorem tcp_trace_overreads:
  assumes "valid_data (mdata m)" and "mtype m = Some t"
  shows "tcp_trace_text m = Inl (Undefined Out_of_bounds)"
  using assms c_str_unterminated [OF wire_tcp_no_NUL] by (simp add: tcp_trace_text_def serialize_def)

theorem tcp_trace_overreads_witness:
  "tcp_trace_text (default_Mail\<lparr>mtype := Some BYE, mdata := ByeMessage 0\<rparr>) = Inl (Undefined Out_of_bounds)"
  by (rule tcp_trace_overreads [of _ BYE]) simp_all

end
