(* ===== verification/Listener.thy ===== *)
theory Listener
  imports Mail_Box Net Stop_Watch
begin

text \<open>
  The class \<open>Listener\<close> of \<open>listeners.h\<close> and \<open>listeners.cpp\<close>: the thread that multiplexes
  the standard input pipe, the socket, the notification pipe of the mailbox and the signal
  pipe, and that confirms, filters and retransmits over UDP. \<open>World\<close> is what the thread can
  reach: itself, the mailbox, the connection, the descriptors and the console. \<open>interest\<close>
  is the interest list of the epoll descriptor.
\<close>

record Listener =
  fdMap :: "(int \<times> fdType) list"
  confMail :: Mail
  protocolType :: ProtocolType
  receivedConfirm :: bool
  toSendRegistered :: bool
  retries :: int
  refMsgId :: int
  refAuthId :: int
  keepRunning :: bool
  sentBye :: bool
  interest :: "int list"
  stopWatch :: StopWatch

record World =
  lst :: Listener
  mbox :: MailBox
  conn :: NetworkConnection
  kernel :: Kernel
  con :: "console list"

definition new_Listener :: "ProtocolType \<Rightarrow> Listener" where
  "new_Listener type =
     \<lparr>fdMap = [], confMail = default_Mail, protocolType = type, receivedConfirm = True,
      toSendRegistered = True, retries = 0, refMsgId = -1, refAuthId = -1, keepRunning = True,
      sentBye = False, interest = [], stopWatch = new_StopWatch 0\<rparr>"

definition addFd :: "int \<Rightarrow> fdType \<Rightarrow> Listener \<Rightarrow> Listener" where
  "addFd fd type l = l\<lparr>fdMap := (fd, type) # filter (\<lambda>e. fst e \<noteq> fd) (fdMap l)\<rparr>"

definition handleSignal :: "int \<Rightarrow> Kernel \<Rightarrow> Kernel result" where
  "handleSignal writeSignalFd k = (case sys_write writeSignalFd ''1'' k of
       None \<Rightarrow> Inl (Runtime_error ''Failed to write to signal pipe'')
     | Some k \<Rightarrow> Inr k)"

definition print :: "console list \<Rightarrow> World \<Rightarrow> World" where
  "print out w = w\<lparr>con := con w @ out\<rparr>"

subsection \<open>Standard input\<close>

text \<open>One complete line: \<open>writeMail\<close> and \<open>addMail\<close>.\<close>

definition take_line :: "string \<Rightarrow> World \<Rightarrow> World result" where
  "take_line line w =
     rbind (writeMail_line line default_Mail (mbox w)) (\<lambda>(out, ok, mail, mb).
     if \<not> ok then Inl (Runtime_error ''Failed to write mail from stdin'')
     else Inr (print out (w\<lparr>mbox := addMail mail mb\<rparr>)))"

text \<open>The loop over the bytes read, with the local variable \<open>line\<close>.\<close>

fun scan_lines :: "string \<Rightarrow> string \<Rightarrow> World \<Rightarrow> World result" where
  "scan_lines line [] w = Inr w"
| "scan_lines line (c # buf) w =
     (if c = LF then
        (if line \<noteq> [] then rbind (take_line line w) (scan_lines [] buf)
         else scan_lines line buf w)
      else scan_lines (line @ [c]) buf w)"

definition listenStdin :: "int \<Rightarrow> World \<Rightarrow> (bool \<times> World) result" where
  "listenStdin fd w =
     (case sys_read fd 1023 (kernel w) of (r, k) \<Rightarrow>
        let w = w\<lparr>kernel := k\<rparr> in
        (case r of
           Block \<Rightarrow> Inl Blocked
         | Failed again \<Rightarrow>
             (if \<not> again then Inl (Runtime_error ''Failed to read from stdin'') else Inr (True, w))
         | Count buf \<Rightarrow>
             (if buf = [] then Inr (False, w)
              else rbind (scan_lines [] buf w) (\<lambda>w. Inr (True, w)))))"

subsection \<open>The socket\<close>

definition send_mail :: "int \<Rightarrow> Mail \<Rightarrow> World \<Rightarrow> World result" where
  "send_mail n mail w = rbind (sendData n mail (conn w)) (\<lambda>c. Inr (w\<lparr>conn := c\<rparr>))"

definition deliver :: "Mail \<Rightarrow> World \<Rightarrow> World" where
  "deliver mail w = w\<lparr>mbox := addMail mail (mbox w)\<rparr>"

text \<open>
  The UDP part of \<open>listenSocket\<close>: filter by the highest identifier seen, confirm, handle a
  CONFIRM. \<open>n\<close> is what the system answers to the send of the confirmation.
\<close>

definition accept_and_confirm :: "int \<Rightarrow> Mail \<Rightarrow> Mail \<Rightarrow> World \<Rightarrow> World result" where
  "accept_and_confirm n mail confirmMail w =
     rbind (send_mail n confirmMail (w\<lparr>mbox := (mbox w)\<lparr>srvMsgId := getMessageID mail\<rparr>\<rparr>)) (\<lambda>w.
     Inr (deliver mail w))"

definition udp_incoming :: "int \<Rightarrow> Mail \<Rightarrow> World \<Rightarrow> World result" where
  "udp_incoming n mail w =
     rbind (writeMail_type CONFIRM default_Mail (getMessageID mail) (mbox w)) (\<lambda>confirmMail.
     case mtype mail of
       None \<Rightarrow> Inl (Undefined Uninitialised)
     | Some REPLY \<Rightarrow>
         (if getMessageID mail \<le> srvMsgId (mbox w) then send_mail n confirmMail w
          else if refAuthId (lst w) \<noteq> getRefMessageID mail then Inr w
          else accept_and_confirm n mail confirmMail w)
     | Some CONFIRM \<Rightarrow>
         (case mdata mail of
            ConfirmMessage ref \<Rightarrow>
              (if ref = refMsgId (lst w) \<and> \<not> receivedConfirm (lst w)
               then Inr (w\<lparr>lst := (lst w)\<lparr>receivedConfirm := True, retries := 0, refMsgId := -1\<rparr>\<rparr>)
               else Inr w)
          | _ \<Rightarrow> Inl Bad_variant_access)
     | Some _ \<Rightarrow>
         (if getMessageID mail \<le> srvMsgId (mbox w) then Inr w
          else accept_and_confirm n mail confirmMail w))"

text \<open>The local buffer of the event loop: \<open>char buffer[1024] = {0}\<close>.\<close>

definition zero_buffer :: string where
  "zero_buffer = replicate 1024 NUL"

definition listenSocket ::
    "(string \<Rightarrow> host_addr option) \<Rightarrow> Incoming \<Rightarrow> int \<Rightarrow> World \<Rightarrow> (bool \<times> World) result" where
  "listenSocket gethostbyname incoming n w =
     rbind (receiveData gethostbyname incoming zero_buffer (conn w)) (\<lambda>(out, received, buffer, c).
     if \<not> received then Inl (Runtime_error ''Failed to receive data'')
     else
       rbind (writeMail_buffer buffer default_Mail (mbox w)) (\<lambda>(out', written, mail).
       let w = print (out @ out') (w\<lparr>conn := c\<rparr>);
           w = (if \<not> written
                then print [Stderr (''Failed to write mail from socket'' @ [LF])]
                       (w\<lparr>lst := (lst w)\<lparr>keepRunning := False\<rparr>\<rparr>)
                else w)
       in if protocolType (lst w) = UDP
          then rbind (udp_incoming n mail w) (\<lambda>w. Inr (True, w))
          else Inr (True, deliver mail w)))"

subsection \<open>The notification and signal pipes\<close>

definition note_sent :: "Mail \<Rightarrow> Listener \<Rightarrow> Listener" where
  "note_sent mail l =
     (if protocolType l = UDP then
        (let l = l\<lparr>receivedConfirm := False, refMsgId := getMessageID mail, confMail := mail\<rparr>
         in if mtype mail = Some AUTH \<or> mtype mail = Some JOIN
            then l\<lparr>refAuthId := getMessageID mail\<rparr> else l)
      else l)"

definition send_next :: "int \<Rightarrow> World \<Rightarrow> World result" where
  "send_next n w =
     rbind (getOutgoingMail (mbox w)) (\<lambda>(mail, mb).
     case mtype mail of
       None \<Rightarrow> Inl (Undefined Uninitialised)
     | Some t \<Rightarrow>
         (let l = (if t = BYE then (lst w)\<lparr>sentBye := True, keepRunning := False\<rparr> else lst w) in
          rbind (send_mail n mail (w\<lparr>mbox := mb, lst := l\<rparr>)) (\<lambda>w.
          Inr (w\<lparr>lst := note_sent mail (lst w)\<rparr>))))"

text \<open>
  Both handlers first take one byte from their pipe. EAGAIN is passed over, as in the code.
\<close>

definition clear_pipe :: "string \<Rightarrow> int \<Rightarrow> World \<Rightarrow> (bool \<times> World) result" where
  "clear_pipe name fd w =
     (case sys_read fd 1 (kernel w) of (r, k) \<Rightarrow>
        let w = w\<lparr>kernel := k\<rparr> in
        (case r of
           Block \<Rightarrow> Inl Blocked
         | Failed again \<Rightarrow>
             (if \<not> again then Inl (Runtime_error (''Failed to read from '' @ name @ '' pipe''))
              else Inr (True, w))
         | Count buf \<Rightarrow> Inr (buf \<noteq> [], w)))"

definition listenToSendPipe :: "int \<Rightarrow> int \<Rightarrow> World \<Rightarrow> (bool \<times> World) result" where
  "listenToSendPipe fd n w =
     rbind (clear_pipe ''send'' fd w) (\<lambda>(ok, w).
     if \<not> ok then Inr (False, w) else rbind (send_next n w) (\<lambda>w. Inr (True, w)))"

definition listenSignal :: "int \<Rightarrow> World \<Rightarrow> (bool \<times> World) result" where
  "listenSignal fd w =
     rbind (clear_pipe ''signal'' fd w) (\<lambda>(ok, w).
     if \<not> ok then Inr (False, w)
     else rbind (writeMail_type ERR default_Mail (-1) (mbox w)) (\<lambda>mail.
          let w = deliver (mail\<lparr>sigint := True\<rparr>) w
          in Inr (True, w\<lparr>lst := (lst w)\<lparr>keepRunning := False\<rparr>\<rparr>)))"

subsection \<open>The event loop\<close>

text \<open>\<open>epoll_ctl\<close>: a descriptor is added once and removed when it is there.\<close>

definition registerFd :: "int \<Rightarrow> Listener \<Rightarrow> Listener result" where
  "registerFd fd l =
     (if fd \<in> set (interest l) then Inl (Runtime_error ''Failed to add file descriptor to epoll'')
      else Inr (l\<lparr>interest := fd # interest l\<rparr>))"

definition registerFds :: "Listener \<Rightarrow> Listener result" where
  "registerFds l = rfold (\<lambda>e. registerFd (fst e)) (fdMap l) l"

definition unregisterFd :: "int \<Rightarrow> Listener \<Rightarrow> Listener result" where
  "unregisterFd fd l =
     (if fd \<notin> set (interest l) then Inl (Runtime_error ''Failed to remove file descriptor from epoll'')
      else Inr (l\<lparr>interest := filter (\<lambda>f. f \<noteq> fd) (interest l)\<rparr>))"

definition loop_guard :: "Listener \<Rightarrow> bool" where
  "loop_guard l \<longleftrightarrow> keepRunning l \<or> (\<not> sentBye l \<or> \<not> receivedConfirm l)"

text \<open>The notification pipe is watched only while no confirmation is awaited.\<close>

definition notify_fd :: "World \<Rightarrow> int result" where
  "notify_fd w = (case getNotifyListenerPipe (mbox w) of
       None \<Rightarrow> Inl (Undefined Uninitialised) | Some p \<Rightarrow> Inr (getReadFd p))"

definition sync_interest :: "World \<Rightarrow> World result" where
  "sync_interest w =
     (let l = lst w in
      if \<not> receivedConfirm l \<and> toSendRegistered l then
        rbind (notify_fd w) (\<lambda>fd. rbind (unregisterFd fd l) (\<lambda>l.
        Inr (w\<lparr>lst := l\<lparr>toSendRegistered := False\<rparr>\<rparr>)))
      else if receivedConfirm l \<and> \<not> toSendRegistered l then
        rbind (notify_fd w) (\<lambda>fd. rbind (registerFd fd l) (\<lambda>l.
        Inr (w\<lparr>lst := l\<lparr>toSendRegistered := True\<rparr>\<rparr>)))
      else Inr w)"

text \<open>
  The limit of the next wait. The code computes it as a \<open>double\<close> (which \<open>duration\<close> returns) and converts it
  to \<open>int\<close>; for waits of less than 24 days this is the exact difference.
\<close>

definition next_timeout :: "int \<Rightarrow> World \<Rightarrow> (int \<times> World) result" where
  "next_timeout now w =
     (if \<not> receivedConfirm (lst w) then
        rbind (getTimeout (conn w)) (\<lambda>t.
        let (d, sw) = sw_duration now (stopWatch (lst w))
        in Inr (t - d, w\<lparr>lst := (lst w)\<lparr>stopWatch := sw\<rparr>\<rparr>))
      else Inr (-1, w))"

text \<open>
  What \<open>epoll_wait\<close> answers: an error, no event within the timeout, or the ready
  descriptors, each with what its handler will get from the system.
\<close>

datatype Wake = Interrupted | Timed_out | Ready "(int \<times> Incoming \<times> int) list"

definition on_timeout :: "int \<Rightarrow> int \<Rightarrow> World \<Rightarrow> World result" where
  "on_timeout now n w =
     rbind (getRetries (conn w)) (\<lambda>maxRetries.
     if maxRetries \<le> retries (lst w) then Inl (Runtime_error ''Server not responding'')
     else send_mail n (confMail (lst w))
            (w\<lparr>lst := (lst w)\<lparr>stopWatch := sw_reset now (stopWatch (lst w)),
                              retries := retries (lst w) + 1\<rparr>\<rparr>))"

definition checked :: "string \<Rightarrow> (bool \<times> World) result \<Rightarrow> World result" where
  "checked msg r = rbind r (\<lambda>(ok, w). if ok then Inr w else Inl (Runtime_error msg))"

definition on_event ::
    "(string \<Rightarrow> host_addr option) \<Rightarrow> int \<times> Incoming \<times> int \<Rightarrow> World \<Rightarrow> World result" where
  "on_event gethostbyname e w =
     (case e of (fd, incoming, n) \<Rightarrow>
      (case map_of (fdMap (lst w)) fd of
         None \<Rightarrow> Inr w
       | Some StdinPipe \<Rightarrow> checked ''Failed to listen to stdin'' (listenStdin fd w)
       | Some SocketPipe \<Rightarrow>
           checked ''Failed to listen to socket'' (listenSocket gethostbyname incoming n w)
       | Some ToSendPipe \<Rightarrow> checked ''Failed to listen to send pipe'' (listenToSendPipe fd n w)
       | Some SignalPipe \<Rightarrow> checked ''Failed to listen to signal pipe'' (listenSignal fd w)
       | Some Unknown \<Rightarrow> Inl (Runtime_error ''Unknown file descriptor type'')))"

text \<open>
  The environment of one turn: the clock at each reading, the answer of \<open>epoll_wait\<close>, and
  the answer to the send of a retransmission.
\<close>

record Turn =
  t_duration :: int
  t_start :: int
  t_stop :: int
  t_reset :: int
  wake :: Wake
  n_resend :: int

text \<open>The part of a turn before and during the wait, with the timeout of the wait.\<close>

definition begin_turn :: "Turn \<Rightarrow> World \<Rightarrow> (int \<times> World) result" where
  "begin_turn e w =
     rbind (sync_interest w) (\<lambda>w.
     rbind (next_timeout (t_duration e) w) (\<lambda>(timeout, w).
     Inr (timeout, w\<lparr>lst := (lst w)\<lparr>stopWatch :=
       sw_stop (t_stop e) (sw_start (t_start e) (stopWatch (lst w)))\<rparr>\<rparr>)))"

definition after_wait ::
    "(string \<Rightarrow> host_addr option) \<Rightarrow> Turn \<Rightarrow> World \<Rightarrow> World result" where
  "after_wait gethostbyname e w = (case wake e of
       Interrupted \<Rightarrow> Inr w
     | Timed_out \<Rightarrow> on_timeout (t_reset e) (n_resend e) w
     | Ready events \<Rightarrow> rfold (on_event gethostbyname) events w)"

definition turn_body :: "(string \<Rightarrow> host_addr option) \<Rightarrow> Turn \<Rightarrow> World \<Rightarrow> World result" where
  "turn_body gethostbyname e w = rbind (begin_turn e w) (\<lambda>(_, w). after_wait gethostbyname e w)"

text \<open>
  The handler around the loop: a \<open>runtime_error\<close> is printed and ends the process with
  status 1. Every other fault is not caught.
\<close>

definition guarded :: "'a result \<Rightarrow> 'a result" where
  "guarded r = (case r of
       Inl (Runtime_error what) \<Rightarrow> Inl (Exit 1 [Stderr (''ERR: '' @ what @ [LF])])
     | _ \<Rightarrow> r)"

definition listener_turn :: "(string \<Rightarrow> host_addr option) \<Rightarrow> Turn \<Rightarrow> World \<Rightarrow> World result" where
  "listener_turn gethostbyname e w = guarded (turn_body gethostbyname e w)"

subsection \<open>The end\<close>

text \<open>
  \<open>stop\<close> clears the flag, joins the thread and closes the descriptors of the map; the
  destructor closes them too. The descriptors are given as the list of calls of \<open>close\<close>.
\<close>

definition Listener_stop :: "Listener \<Rightarrow> Listener \<times> int list" where
  "Listener_stop l = (l\<lparr>keepRunning := False\<rparr>, map fst (fdMap l))"

definition destroy_Listener :: "Listener \<Rightarrow> int list" where
  "destroy_Listener l = map fst (fdMap l)"

subsection \<open>What the handlers leave alone\<close>

lemma addMail_sel [simp]:
  "outgoingMails (addMail m mb) = outgoingMails mb" "srvMsgId (addMail m mb) = srvMsgId mb"
  "notifyListenerPipe (addMail m mb) = notifyListenerPipe mb"
  "displayName (addMail m mb) = displayName mb" "delivery_service (addMail m mb) = delivery_service mb"
  "sequenceUDPNumber (addMail m mb) = sequenceUDPNumber mb"
  "incomingMails (addMail m mb) = incomingMails mb @ (if addToMailQueue m then [m] else [])"
  by (simp_all add: addMail_def)

lemma print_sel [simp]:
  "lst (print out w) = lst w" "mbox (print out w) = mbox w" "conn (print out w) = conn w"
  "kernel (print out w) = kernel w"
  by (simp_all add: print_def)

lemma deliver_sel [simp]:
  "lst (deliver m w) = lst w" "conn (deliver m w) = conn w" "kernel (deliver m w) = kernel w"
  "mbox (deliver m w) = addMail m (mbox w)"
  by (simp_all add: deliver_def)

text \<open>
  The listener and the connection are untouched, the mailbox keeps what is to be sent, and
  new mails come at the end of the incoming queue.
\<close>

definition only_incoming :: "World \<Rightarrow> World \<Rightarrow> bool" where
  "only_incoming w w' \<longleftrightarrow> lst w' = lst w \<and> conn w' = conn w \<and>
     outgoingMails (mbox w') = outgoingMails (mbox w) \<and>
     notifyListenerPipe (mbox w') = notifyListenerPipe (mbox w) \<and>
     srvMsgId (mbox w') = srvMsgId (mbox w) \<and>
     sequenceUDPNumber (mbox w') = sequenceUDPNumber (mbox w) \<and>
     delivery_service (mbox w') = delivery_service (mbox w) \<and>
     (\<exists>ms. incomingMails (mbox w') = incomingMails (mbox w) @ ms \<and> list_all queued ms)"

lemma only_incoming_refl: "only_incoming w w"
  by (simp add: only_incoming_def)

lemma only_incoming_trans: "only_incoming u v \<Longrightarrow> only_incoming v w \<Longrightarrow> only_incoming u w"
  by (auto simp: only_incoming_def)

lemma take_line_incoming: "take_line line w = Inr w' \<Longrightarrow> only_incoming w w'"
  by (auto simp: take_line_def only_incoming_def rbind_eq_Inr split: if_splits
      dest!: writeMail_line_sound)

lemma rfold_take_line_incoming: "rfold take_line ls w = Inr w' \<Longrightarrow> only_incoming w w'"
  by (erule rfold_inv) (auto intro: only_incoming_refl only_incoming_trans take_line_incoming)

text \<open>
  The loop over the bytes of one read is the loop over its complete lines that are not
  empty: what follows the last line end is dropped with the local variable.
\<close>

lemma scan_lines_prefix:
  "LF \<notin> set l \<Longrightarrow> scan_lines acc (l @ LF # buf) w =
    (if acc @ l \<noteq> [] then rbind (take_line (acc @ l) w) (scan_lines [] buf) else scan_lines [] buf w)"
  by (induction l arbitrary: acc) auto

lemma scan_lines_rest: "LF \<notin> set rest \<Longrightarrow> scan_lines acc rest w = Inr w"
  by (induction rest arbitrary: acc) auto

lemma scan_lines_split:
  "list_all (\<lambda>l. LF \<notin> set l) ls \<Longrightarrow> LF \<notin> set rest \<Longrightarrow>
    scan_lines [] (concat (map (\<lambda>l. l @ [LF]) ls) @ rest) w = rfold take_line (filter (\<lambda>l. l \<noteq> []) ls) w"
proof (induction ls arbitrary: w)
  case (Cons l ls)
  then have "scan_lines [] (concat (map (\<lambda>l. l @ [LF]) ls) @ rest) =
      rfold take_line (filter (\<lambda>l. l \<noteq> []) ls)" by (intro ext) simp
  with Cons.prems show ?case by (simp add: scan_lines_prefix)
qed (simp add: scan_lines_rest)

lemma ex_lines: "\<exists>ls rest. buf = concat (map (\<lambda>l. l @ [LF]) ls) @ rest \<and>
    list_all (\<lambda>l. LF \<notin> set l) ls \<and> LF \<notin> set rest"
proof (induction buf)
  case Nil
  show ?case by (intro exI [of _ "[]"]) simp
next
  case (Cons c buf)
  then obtain ls rest where *: "buf = concat (map (\<lambda>l. l @ [LF]) ls) @ rest"
    "list_all (\<lambda>l. LF \<notin> set l) ls" "LF \<notin> set rest" by blast
  show ?case
  proof (cases "c = LF")
    case True
    then show ?thesis using * by (intro exI [of _ "[] # ls"] exI [of _ rest]) simp
  next
    case False
    then show ?thesis
    proof (cases ls)
      case Nil
      then show ?thesis using * False by (intro exI [of _ "[]"] exI [of _ "c # rest"]) simp
    next
      case (Cons l ls')
      then show ?thesis using * False
        by (intro exI [of _ "(c # l) # ls'"] exI [of _ rest]) simp
    qed
  qed
qed

lemma scan_lines_incoming: "scan_lines [] buf w = Inr w' \<Longrightarrow> only_incoming w w'"
  using ex_lines [of buf] scan_lines_split rfold_take_line_incoming by metis

lemma kernel_incoming: "only_incoming (w\<lparr>kernel := k\<rparr>) w' \<longleftrightarrow> only_incoming w w'"
  by (simp add: only_incoming_def)

lemma listenStdin_incoming: "listenStdin fd w = Inr (b, w') \<Longrightarrow> only_incoming w w'"
  by (auto simp: listenStdin_def rbind_eq_Inr Let_def kernel_incoming only_incoming_refl
      split: prod.splits ReadResult.splits if_splits
      dest!: scan_lines_incoming intro!: iffD1 [OF kernel_incoming only_incoming_refl])

subsection \<open>Properties of the standard input\<close>

text \<open>
  C35. A read from the standard input pipe is handled line by line, in order: every complete
  line that is not empty becomes a mail or ends the loop with the fault of \<open>writeMail\<close>, and
  the text after the last line end of the read is lost, since the variable that holds it is
  local to the call.
\<close>

theorem stdin_line_by_line:
  assumes "sys_read fd 1023 (kernel w) = (Count (concat (map (\<lambda>l. l @ [LF]) ls) @ rest), k)"
    and "list_all (\<lambda>l. LF \<notin> set l) ls" and "LF \<notin> set rest" and "ls \<noteq> [] \<or> rest \<noteq> []"
  shows "listenStdin fd w =
    rbind (rfold take_line (filter (\<lambda>l. l \<noteq> []) ls) (w\<lparr>kernel := k\<rparr>)) (\<lambda>w. Inr (True, w))"
  using assms(1,4) scan_lines_split [OF assms(2,3)] by (auto simp: listenStdin_def)

text \<open>A listener of its own world, for concrete runs: standard input on descriptor 3.\<close>

definition demo_listener :: "ProtocolType \<Rightarrow> Listener" where
  "demo_listener t = (new_Listener t)\<lparr>fdMap := [(3, StdinPipe), (9, SocketPipe), (4, ToSendPipe)],
     interest := [3, 9, 4]\<rparr>"

definition stdin_kernel :: "string \<Rightarrow> Kernel" where
  "stdin_kernel data = \<lparr>fds = [(3, Read_end 0), (5, Write_end 0)], bufs = (\<lambda>_. data), next_pipe = 1,
     nonblock = [], fd_limit = 16\<rparr>"

definition stdin_world :: "string \<Rightarrow> World" where
  "stdin_world data = \<lparr>lst = demo_listener UDP, mbox = new_MailBox UDP None, conn = None,
     kernel = stdin_kernel data, con = []\<rparr>"

definition demo_text :: "string \<Rightarrow> Mail" where
  "demo_text s = fill default_Mail MSG True (TextMessage True 0 ''default'' s)"

lemma take_line_hello: "mbox w = new_MailBox UDP None \<Longrightarrow>
    take_line ''hi'' w = Inr (w\<lparr>mbox := addMail (demo_text ''hi'') (mbox w)\<rparr>)"
proof -
  assume mb: "mbox w = new_MailBox UDP None"
  have "token ''hi''" by (simp add: token_def isspace_def in_range_def code_def)
  then have "writeMail_line ''hi'' default_Mail (mbox w) = Inr ([], True, demo_text ''hi'', mbox w)"
    by (simp add: mb writeMail_line_text read_word_token_end commands_def new_MailBox_def
        valid_content_def in_range_def code_def demo_text_def)
  then show ?thesis by (simp add: take_line_def print_def)
qed

theorem stdin_line_by_line_witness:
  "\<exists>w. listenStdin 3 (stdin_world (''hi'' @ [LF] @ ''lost'')) = Inr (True, w) \<and>
    incomingMails (mbox w) = [demo_text ''hi'']"
proof -
  let ?w = "stdin_world (''hi'' @ [LF] @ ''lost'')"
  have "sys_read 3 1023 (kernel ?w) = (Count (concat (map (\<lambda>l. l @ [LF]) [''hi'']) @ ''lost''),
      (stdin_kernel (''hi'' @ [LF] @ ''lost''))\<lparr>bufs := (\<lambda>_. ''hi'' @ [LF] @ ''lost'')(0 := [])\<rparr>)"
    by (simp add: sys_read_def stdin_world_def stdin_kernel_def)
  from stdin_line_by_line [OF this] show ?thesis
    by (simp add: take_line_hello stdin_world_def) (simp add: new_MailBox_def demo_text_def)
qed

text \<open>
  What the user types can end the client: when the first complete line of a read is one
  that \<open>writeMail\<close> rejects, the turn that reads it ends the process with status 1 and the
  rejection on the error output, without a BYE.
\<close>

theorem invalid_line_exits:
  assumes "sync_interest w = Inr w1" and "next_timeout (t_duration e) w1 = Inr (t, w2)"
    and "wake e = Ready [(fd, inc, n)]" and "map_of (fdMap (lst w2)) fd = Some StdinPipe"
    and "sys_read fd 1023 (kernel w2) = (Count (line @ LF # buf), k)"
    and "LF \<notin> set line" and "line \<noteq> []"
    and "writeMail_line line default_Mail (mbox w2) = Inl (Runtime_error msg)"
  shows "listener_turn g e w = Inl (Exit 1 [Stderr (''ERR: '' @ msg @ [LF])])"
  using assms scan_lines_prefix [of line "[]" buf]
  by (simp add: listener_turn_def turn_body_def begin_turn_def after_wait_def on_event_def checked_def listenStdin_def
      take_line_def guarded_def)

definition quiet_turn :: "Wake \<Rightarrow> Turn" where
  "quiet_turn x = \<lparr>t_duration = 0, t_start = 0, t_stop = 0, t_reset = 0, wake = x, n_resend = 0\<rparr>"

theorem invalid_line_exits_witness:
  "listener_turn (\<lambda>_. None) (quiet_turn (Ready [(3, Recv_error True, 0)])) (stdin_world (''/join'' @ [LF])) =
    Inl (Exit 1 [Stderr (''ERR: '' @ (''Username is invalid. value: [] Hex: []'') @ [LF])])"
proof (rule invalid_line_exits)
  let ?w = "stdin_world (''/join'' @ [LF])"
  show "sync_interest ?w = Inr ?w"
    by (simp add: sync_interest_def stdin_world_def demo_listener_def new_Listener_def)
  show "next_timeout (t_duration (quiet_turn (Ready [(3, Recv_error True, 0)]))) ?w = Inr (-1, ?w)"
    by (simp add: next_timeout_def stdin_world_def demo_listener_def new_Listener_def)
  show "wake (quiet_turn (Ready [(3, Recv_error True, 0)])) = Ready [(3, Recv_error True, 0)]"
    by (simp add: quiet_turn_def)
  show "map_of (fdMap (lst ?w)) 3 = Some StdinPipe"
    by (simp add: stdin_world_def demo_listener_def)
  show "sys_read 3 1023 (kernel ?w) = (Count (''/join'' @ LF # []),
      (stdin_kernel (''/join'' @ [LF]))\<lparr>bufs := (\<lambda>_. ''/join'' @ [LF])(0 := [])\<rparr>)"
    by (simp add: sys_read_def stdin_world_def stdin_kernel_def)
  show "writeMail_line ''/join'' default_Mail (mbox ?w) =
      Inl (Runtime_error ''Username is invalid. value: [] Hex: []'')"
    by (simp add: writeMail_line_def read_command read_word_Nil mkJoinMessage_def validators_eq
        rejection_def hexStream_def)
qed simp_all

end
