(* ===== verification/Reliability.thy ===== *)
theory Reliability
  imports Listener
begin

text \<open>
  What the listener makes of UDP: which datagrams are confirmed and delivered, and the
  stop-and-wait transmission of the outgoing mails. The first part is about the branches
  of \<open>listenSocket\<close>, the second about sequences of datagrams, the third about turns of the
  event loop, as a step relation with its invariant.
\<close>

subsection \<open>One datagram\<close>

definition confirmation :: "int \<Rightarrow> string" where
  "confirmation n = wire True CONFIRM (ConfirmMessage n)"

text \<open>A UDP world: the listener, its mailbox and its connection agree on the protocol.\<close>

definition udp_world :: "World \<Rightarrow> bool" where
  "udp_world w \<longleftrightarrow> protocolType (lst w) = UDP \<and> delivery_service (mbox w) = UDP \<and>
     conn_of UDP (conn w)"

text \<open>A mail that is neither a duplicate nor a REPLY to something else.\<close>

definition accepted :: "Mail \<Rightarrow> World \<Rightarrow> bool" where
  "accepted m w \<longleftrightarrow> mtype m \<noteq> Some CONFIRM \<and> srvMsgId (mbox w) < getMessageID m \<and>
     (mtype m = Some REPLY \<longrightarrow> refAuthId (lst w) = getRefMessageID m)"

definition acknowledges :: "Mail \<Rightarrow> World \<Rightarrow> bool" where
  "acknowledges m w \<longleftrightarrow> mtype m = Some CONFIRM \<and> \<not> receivedConfirm (lst w) \<and>
     getMessageID m = refMsgId (lst w)"

definition confirm_it :: "Mail \<Rightarrow> World \<Rightarrow> World" where
  "confirm_it m w = w\<lparr>conn := map_option (\<lambda>c. c\<lparr>sent := sent c @
     [(server_addr c, confirmation (getMessageID m))]\<rparr>) (conn w)\<rparr>"

definition note_confirm :: "World \<Rightarrow> World" where
  "note_confirm w = w\<lparr>lst := (lst w)\<lparr>receivedConfirm := True, retries := 0, refMsgId := -1\<rparr>\<rparr>"

text \<open>The four things a datagram can lead to.\<close>

definition reaction :: "Mail \<Rightarrow> World \<Rightarrow> World" where
  "reaction m w =
     (if accepted m w then deliver m (confirm_it m (w\<lparr>mbox := (mbox w)\<lparr>srvMsgId := getMessageID m\<rparr>\<rparr>))
      else if acknowledges m w then note_confirm w
      else if mtype m = Some REPLY \<and> getMessageID m \<le> srvMsgId (mbox w) then confirm_it m w
      else w)"

lemma send_confirm:
  assumes "conn_of UDP (conn w)"
  shows "send_mail n (default_Mail\<lparr>mtype := Some CONFIRM, mdata := ConfirmMessage (getMessageID m)\<rparr>) w =
    (if 0 \<le> n then Inr (confirm_it m w) else Inl (Runtime_error ''Failed to send data''))"
  using assms
  by (cases "conn w") (auto simp: send_mail_def sendData_def conn_of_def udp_sendData_def sendTo_def
      hand_over_def serialize_def confirm_it_def confirmation_def)

definition confirms :: "Mail \<Rightarrow> World \<Rightarrow> bool" where
  "confirms m w \<longleftrightarrow> accepted m w \<or> mtype m = Some REPLY \<and> getMessageID m \<le> srvMsgId (mbox w)"

lemma udp_incoming_reaction:
  assumes "sound m" and "conn_of UDP (conn w)"
  shows "udp_incoming n m w =
    (if confirms m w \<and> n < 0 then Inl (Runtime_error ''Failed to send data'') else Inr (reaction m w))"
proof -
  obtain t where t: "mtype m = Some t" using assms(1) by (auto simp: sound_defs)
  have c: "t = CONFIRM \<Longrightarrow> mdata m = ConfirmMessage (getMessageID m)"
    using assms(1) t by (cases "mdata m") (auto simp: sound_defs getMessageID_def)
  show ?thesis
    using t c assms(2)
    by (cases t) (auto simp: udp_incoming_def writeMail_type_def accept_and_confirm_def reaction_def
        accepted_def acknowledges_def note_confirm_def send_confirm confirms_def)
qed

lemma udp_incoming_Inr:
  "sound m \<Longrightarrow> conn_of UDP (conn w) \<Longrightarrow> udp_incoming n m w = Inr w' \<Longrightarrow> w' = reaction m w"
  by (simp add: udp_incoming_reaction split: if_splits)

lemma confirm_it_sel [simp]:
  "retry_limit (conn (confirm_it m w)) = retry_limit (conn w)" "lst (confirm_it m w) = lst w" "mbox (confirm_it m w) = mbox w" "kernel (confirm_it m w) = kernel w"
  "conn_of t (conn (confirm_it m w)) = conn_of t (conn w)"
  by (cases "conn w"; auto simp: confirm_it_def conn_of_def retry_limit_def)+

lemma confirm_it_payloads:
  "conn_of t (conn w) \<Longrightarrow> conn_payloads (conn (confirm_it m w)) =
    conn_payloads (conn w) @ [confirmation (getMessageID m)]"
  by (auto simp: confirm_it_def conn_of_def conn_payloads_def split: option.splits)

lemma note_confirm_sel [simp]:
  "mbox (note_confirm w) = mbox w" "kernel (note_confirm w) = kernel w" "conn (note_confirm w) = conn w"
  by (simp_all add: note_confirm_def)

text \<open>An identifier that \<open>readUInt16\<close> can produce.\<close>

definition readable_id :: "int \<Rightarrow> bool" where
  "readable_id n \<longleftrightarrow> (\<exists>v. n = uint v \<and> readable v)"

lemma readable_id_uint [simp]: "readable_id (uint v) = readable v"
  by (auto simp: readable_id_def simp flip: word_uint_eq_iff)

lemma writeUDPMail_readable:
  "writeUDPMail ds buffer mail = Inr (out, b, m) \<Longrightarrow> mtype m = Some CONFIRM \<Longrightarrow>
    readable_id (getMessageID m)"
proof (cases buffer)
  case (Cons c current)
  assume "writeUDPMail ds buffer mail = Inr (out, b, m)" "mtype m = Some CONFIRM"
  with Cons show ?thesis
    by (cases "type_of_byte c")
      (auto simp: writeUDPMail_def result_simps getMessageID_def dest: readUInt16_readable)
qed (simp add: writeUDPMail_def)

text \<open>\<open>listenSocket\<close> on UDP reads the mail, then reacts.\<close>

lemma listenSocket_udp:
  assumes "listenSocket g inc n w = Inr (b, w')" and "udp_world w"
  shows "b \<and> (\<exists>m w0. sound m \<and> (mtype m = Some CONFIRM \<longrightarrow> readable_id (getMessageID m)) \<and>
    w' = reaction m w0 \<and> lst w0 = lst w \<and> mbox w0 = mbox w \<and> kernel w0 = kernel w \<and> conn_of UDP (conn w0) \<and>
    retry_limit (conn w0) = retry_limit (conn w) \<and> conn_payloads (conn w0) = conn_payloads (conn w))"
proof -
  from assms obtain out buffer c out' written m where
      r: "receiveData g inc zero_buffer (conn w) = Inr (out, True, buffer, c)"
    and m: "writeMail_buffer buffer default_Mail (mbox w) = Inr (out', written, m)"
    and rest: "(let w1 = print (out @ out') (w\<lparr>conn := c\<rparr>);
           w1 = (if \<not> written then print [Stderr (''Failed to write mail from socket'' @ [LF])]
                       (w1\<lparr>lst := (lst w1)\<lparr>keepRunning := False\<rparr>\<rparr>) else w1)
       in if protocolType (lst w1) = UDP then rbind (udp_incoming n m w1) (\<lambda>w. Inr (True, w))
          else Inr (True, deliver m w1)) = Inr (b, w')"
    by (auto simp: listenSocket_def rbind_eq_Inr split: if_splits)
  from m assms(2) have s: "written" "sound m" "mtype m = Some CONFIRM \<longrightarrow> readable_id (getMessageID m)"
    by (auto simp: writeMail_buffer_def udp_world_def dest: writeUDPMail_sound writeUDPMail_readable)
  have c: "conn_of UDP c" "conn_payloads c = conn_payloads (conn w)" "retry_limit c = retry_limit (conn w)"
    using receiveData_conn r assms(2) unfolding udp_world_def by blast+
  let ?w = "print (out @ out') (w\<lparr>conn := c\<rparr>)"
  have "conn_of UDP (conn ?w)" using c by simp
  moreover have "udp_incoming n m ?w = Inr w'" "b"
    using rest s assms(2) by (auto simp: udp_world_def rbind_eq_Inr)
  ultimately show ?thesis
    using udp_incoming_Inr [OF s(2), of ?w n w'] s c by (intro conjI exI [of _ m] exI [of _ ?w]) auto
qed

subsection \<open>Sequences of datagrams\<close>

text \<open>
  \<open>receive_all\<close> is the socket handler over a sequence of arrivals, each with the answer of
  the system to the confirmation that it may cause.
\<close>

definition receive_one :: "(string \<Rightarrow> host_addr option) \<Rightarrow> Incoming \<times> int \<Rightarrow> World \<Rightarrow> World result" where
  "receive_one g x w = (case x of (inc, n) \<Rightarrow> rbind (listenSocket g inc n w) (\<lambda>(_, w). Inr w))"

definition receive_all ::
    "(string \<Rightarrow> host_addr option) \<Rightarrow> (Incoming \<times> int) list \<Rightarrow> World \<Rightarrow> World result" where
  "receive_all g xs w = rfold (receive_one g) xs w"

text \<open>
  What a sequence of datagrams does: it delivers \<open>ms\<close> and sends \<open>ps\<close>, and may note a
  confirmation.
\<close>

definition cleared :: "Listener \<Rightarrow> Listener" where
  "cleared l = l\<lparr>receivedConfirm := True, retries := 0, refMsgId := -1\<rparr>"

definition same_outbox :: "MailBox \<Rightarrow> MailBox \<Rightarrow> bool" where
  "same_outbox mb mb' \<longleftrightarrow>
     mb' = mb\<lparr>incomingMails := incomingMails mb', srvMsgId := srvMsgId mb'\<rparr>"

lemma same_outboxI: "same_outbox mb (mb\<lparr>incomingMails := ms, srvMsgId := n\<rparr>)"
  by (simp add: same_outbox_def)

lemma same_outbox_refl [simp]: "same_outbox mb mb"
  by (simp add: same_outbox_def)

lemma same_outbox_eq: "same_outbox mb mb' \<Longrightarrow> \<exists>ms n. mb' = mb\<lparr>incomingMails := ms, srvMsgId := n\<rparr>"
  unfolding same_outbox_def by blast

lemma same_outbox_trans: "same_outbox a b \<Longrightarrow> same_outbox b c \<Longrightarrow> same_outbox a c"
  by (auto dest!: same_outbox_eq intro: same_outboxI)

lemma same_outboxD:
  "same_outbox mb mb' \<Longrightarrow> outgoingMails mb' = outgoingMails mb \<and> displayName mb' = displayName mb \<and>
    notifyListenerPipe mb' = notifyListenerPipe mb \<and> delivery_service mb' = delivery_service mb \<and>
    sequenceUDPNumber mb' = sequenceUDPNumber mb"
  by (auto dest!: same_outbox_eq)

definition udp_progress :: "World \<Rightarrow> Mail list \<Rightarrow> string list \<Rightarrow> World \<Rightarrow> bool" where
  "udp_progress w ms ps w' \<longleftrightarrow> udp_world w' \<and>
     incomingMails (mbox w') = incomingMails (mbox w) @ ms \<and>
     conn_payloads (conn w') = conn_payloads (conn w) @ ps \<and>
     srvMsgId (mbox w) \<le> srvMsgId (mbox w') \<and>
     sorted_wrt (<) (map getMessageID ms) \<and>
     (\<forall>m \<in> set ms. queued m \<and> srvMsgId (mbox w) < getMessageID m \<and> getMessageID m \<le> srvMsgId (mbox w') \<and>
        confirmation (getMessageID m) \<in> set ps) \<and>
     (\<forall>p \<in> set ps. \<exists>i. p = confirmation i) \<and>
     retry_limit (conn w') = retry_limit (conn w) \<and> same_outbox (mbox w) (mbox w') \<and>
     (lst w' = lst w \<or> readable_id (refMsgId (lst w)) \<and> lst w' = cleared (lst w))"

lemma udp_progress_refl: "udp_world w \<Longrightarrow> udp_progress w [] [] w"
  by (simp add: udp_progress_def)

lemma udp_progress_trans:
  assumes "udp_progress u ms ps v" and "udp_progress v ms' ps' w"
  shows "udp_progress u (ms @ ms') (ps @ ps') w"
proof -
  have "\<forall>m \<in> set ms. \<forall>m' \<in> set ms'. getMessageID m < getMessageID m'"
    using assms by (fastforce simp: udp_progress_def)
  moreover have "same_outbox (mbox u) (mbox w)"
    using assms same_outbox_trans by (auto simp: udp_progress_def)
  moreover have "lst w = lst u \<or> readable_id (refMsgId (lst u)) \<and> lst w = cleared (lst u)"
    using assms by (auto simp: udp_progress_def cleared_def)
  moreover have "\<forall>m \<in> set (ms @ ms'). queued m \<and> srvMsgId (mbox u) < getMessageID m \<and>
      getMessageID m \<le> srvMsgId (mbox w) \<and> confirmation (getMessageID m) \<in> set (ps @ ps')"
    using assms by (fastforce simp: udp_progress_def)
  ultimately show ?thesis
    using assms unfolding udp_progress_def by (auto simp: sorted_wrt_append)
qed

lemma reaction_progress:
  assumes "sound m" and "udp_world w" and "mtype m = Some CONFIRM \<longrightarrow> readable_id (getMessageID m)"
  shows "\<exists>ms ps. udp_progress w ms ps (reaction m w)"
proof -
  have c: "conn_of UDP (conn w)" using assms(2) by (simp add: udp_world_def)
  let ?w = "w\<lparr>mbox := (mbox w)\<lparr>srvMsgId := getMessageID m\<rparr>\<rparr>"
  have pay: "conn_payloads (conn (confirm_it m ?w)) = conn_payloads (conn w) @ [confirmation (getMessageID m)]"
    using confirm_it_payloads [of UDP ?w m] c by simp
  consider "accepted m w" | "\<not> accepted m w" "acknowledges m w"
    | "\<not> accepted m w" "\<not> acknowledges m w" "mtype m = Some REPLY \<and> getMessageID m \<le> srvMsgId (mbox w)"
    | "\<not> accepted m w" "\<not> acknowledges m w" "\<not> (mtype m = Some REPLY \<and> getMessageID m \<le> srvMsgId (mbox w))"
    by blast
  then show ?thesis
  proof cases
    case 1
    then show ?thesis
      using assms c pay
      by (intro exI [of _ "if addToMailQueue m then [m] else []"] exI [of _ "[confirmation (getMessageID m)]"])
        (auto simp: udp_progress_def reaction_def udp_world_def accepted_def addMail_def same_outbox_def queued_def)
  next
    case 2
    then show ?thesis using assms
      by (intro exI [of _ "[]"]) (auto simp: udp_progress_def reaction_def udp_world_def note_confirm_def cleared_def acknowledges_def)
  next
    case 3
    then show ?thesis using assms c confirm_it_payloads [OF c, of m]
      by (intro exI [of _ "[]"] exI [of _ "[confirmation (getMessageID m)]"])
        (auto simp: udp_progress_def reaction_def udp_world_def)
  next
    case 4
    then have "reaction m w = w" by (auto simp: reaction_def)
    then show ?thesis using udp_progress_refl [OF assms(2)] by metis
  qed
qed

lemma listenSocket_progress:
  assumes "listenSocket g inc n w = Inr (b, w')" and "udp_world w"
  shows "b \<and> (\<exists>ms ps. udp_progress w ms ps w')"
proof -
  obtain m w0 where *: "b" "sound m" "mtype m = Some CONFIRM \<longrightarrow> readable_id (getMessageID m)" "w' = reaction m w0" "lst w0 = lst w" "mbox w0 = mbox w"
    "retry_limit (conn w0) = retry_limit (conn w)" "conn_of UDP (conn w0)" "conn_payloads (conn w0) = conn_payloads (conn w)"
    using listenSocket_udp [OF assms] by blast
  then have "udp_world w0" using assms(2) by (simp add: udp_world_def)
  from reaction_progress [OF *(2) this *(3)] * show ?thesis by (auto simp: udp_progress_def)
qed

lemma receive_all_progress:
  "receive_all g xs w = Inr w' \<Longrightarrow> udp_world w \<Longrightarrow> \<exists>ms ps. udp_progress w ms ps w'"
proof (induction xs arbitrary: w)
  case Nil
  then show ?case using udp_progress_refl by (auto simp: receive_all_def)
next
  case (Cons x xs)
  then obtain b w1 where w1: "listenSocket g (fst x) (snd x) w = Inr (b, w1)"
    "receive_all g xs w1 = Inr w'"
    by (auto simp: receive_all_def receive_one_def rbind_eq_Inr split: prod.splits)
  obtain ms ps where p: "udp_progress w ms ps w1" using listenSocket_progress [OF w1(1) Cons.prems(2)] by blast
  then have "udp_world w1" by (simp add: udp_progress_def)
  from Cons.IH [OF w1(2) this] p show ?case using udp_progress_trans by blast
qed

text \<open>The datagram path on a buffer of 1024 bytes.\<close>

lemma receive_datagram:
  assumes "protocol_type c = UDP" and "bytes \<noteq> []" and "length bytes \<le> 1023"
  shows "receiveData g (Recv bytes (port c)) zero_buffer (Some c) =
    Inr ([], True, bytes @ replicate (1024 - length bytes) NUL, Some c)"
proof -
  have "\<exists>s. c_str (bytes @ replicate (1024 - length bytes) NUL) = Inr s"
    using assms(3) by (auto simp: c_str_def)
  moreover have "drop (length bytes) zero_buffer = replicate (1024 - length bytes) NUL"
    by (simp add: zero_buffer_def)
  ultimately show ?thesis
    using assms by (auto simp: receiveData_def udp_receiveData_def store_def zero_buffer_def)
qed

lemma print_Nil [simp]: "print [] w = w"
  by (simp add: print_def)

lemma udp_world_conn: "udp_world w \<Longrightarrow> conn w = Some c \<Longrightarrow> protocol_type c = UDP"
  by (simp add: udp_world_def conn_of_def)

lemma listenSocket_mail:
  assumes "udp_world w" and "conn w = Some c" and "0 \<le> n" and "sound m"
    and r: "receiveData g inc zero_buffer (Some c) = Inr ([], True, buffer, Some c)"
    and m: "writeMail_buffer buffer default_Mail (mbox w) = Inr ([], True, m)"
  shows "listenSocket g inc n w = Inr (True, reaction m w)"
proof -
  have inc: "udp_incoming n m w = Inr (reaction m w)"
    using udp_incoming_reaction [of m w n] assms(1,3,4) by (simp add: udp_world_def)
  have w: "w\<lparr>conn := Some c\<rparr> = w" using assms(2) by (cases w) simp
  have "protocolType (lst w) = UDP" using assms(1) by (simp add: udp_world_def)
  then show ?thesis
    unfolding listenSocket_def assms(2) r rbind_Inr prod.case m Let_def append_Nil print_Nil w
    by (simp add: inc)
qed

lemma udp_image_sel [simp]: "data_type (udp_image d) = data_type d" "valid_data (udp_image d) = valid_data d"
  by (cases d; simp)+

text \<open>The mail the client makes of the datagram of a message: its identifiers are as they are read.\<close>

definition received :: "MessageData \<Rightarrow> Mail" where
  "received d = fill default_Mail (data_type d) (data_type d \<noteq> CONFIRM) (udp_image d)"

lemma received_sel [simp]:
  "mtype (received d) = Some (data_type d)" "mdata (received d) = udp_image d"
  "addToMailQueue (received d) \<longleftrightarrow> data_type d \<noteq> CONFIRM"
  "getMessageID (received d) = data_MessageID (udp_image d)"
  "getRefMessageID (received d) = data_RefMessageID (udp_image d)"
  by (simp_all add: received_def getMessageID_def getRefMessageID_def)

lemma listenSocket_datagram:
  assumes "udp_world w" and "conn w = Some c" and "valid_data d" and "data_type d \<noteq> UNKNOWN"
    and "length (server_datagram d) \<le> 1023" and "0 \<le> n"
  shows "listenSocket g (Recv (server_datagram d) (port c)) n w = Inr (True, reaction (received d) w)"
proof (rule listenSocket_mail [OF assms(1,2,6)])
  show "sound (received d)" using assms(3) by (simp add: received_def typed_fill)
  have "server_datagram d \<noteq> []" by (cases d) (simp_all add: server_datagram_def wire_udp)
  then show "receiveData g (Recv (server_datagram d) (port c)) zero_buffer (Some c) =
      Inr ([], True, server_datagram d @ replicate (1024 - length (server_datagram d)) NUL, Some c)"
    using receive_datagram udp_world_conn [OF assms(1,2)] assms(5) by blast
  show "writeMail_buffer (server_datagram d @ replicate (1024 - length (server_datagram d)) NUL) default_Mail
      (mbox w) = Inr ([], True, received d)"
    using assms(1) read_server_datagram [OF assms(3,4), of _ default_Mail]
    by (simp add: writeMail_buffer_def udp_world_def received_def)
qed

lemma listenSocket_message:
  assumes "udp_world w" and "conn w = Some c" and "udp_good d" and "length (server_datagram d) \<le> 1023"
    and "0 \<le> n"
  shows "listenSocket g (Recv (server_datagram d) (port c)) n w =
    Inr (True, reaction (fill default_Mail (data_type d) (data_type d \<noteq> CONFIRM) d) w)"
  using listenSocket_datagram [OF assms(1,2) _ _ assms(4,5)] assms(3) by (simp add: udp_good_def received_def)

text \<open>The world after a mail was taken, and what a mail with no higher identifier does there.\<close>

lemma reaction_taken:
  assumes "accepted m w" and "addToMailQueue m" and "udp_world w" and "conn w = Some c"
  shows "udp_world (reaction m w)" and "lst (reaction m w) = lst w"
    and "incomingMails (mbox (reaction m w)) = incomingMails (mbox w) @ [m]"
    and "conn_payloads (conn (reaction m w)) = conn_payloads (conn w) @ [confirmation (getMessageID m)]"
    and "srvMsgId (mbox (reaction m w)) = getMessageID m"
    and "\<exists>c'. conn (reaction m w) = Some c' \<and> port c' = port c"
proof -
  let ?w = "w\<lparr>mbox := (mbox w)\<lparr>srvMsgId := getMessageID m\<rparr>\<rparr>"
  have r: "reaction m w = deliver m (confirm_it m ?w)" using assms(1) by (simp add: reaction_def)
  have c: "conn_of UDP (conn ?w)" using assms(3) by (simp add: udp_world_def)
  note [simp] = r confirm_it_payloads [OF c]
  show "udp_world (reaction m w)" "lst (reaction m w) = lst w"
    "incomingMails (mbox (reaction m w)) = incomingMails (mbox w) @ [m]"
    "conn_payloads (conn (reaction m w)) = conn_payloads (conn w) @ [confirmation (getMessageID m)]"
    "srvMsgId (mbox (reaction m w)) = getMessageID m"
    using assms(2,3) by (simp_all add: udp_world_def addMail_def)
  show "\<exists>c'. conn (reaction m w) = Some c' \<and> port c' = port c" using assms(4) by (simp add: confirm_it_def)
qed

lemma reaction_old:
  assumes "mtype m = Some t" and "t \<noteq> CONFIRM" and "getMessageID m \<le> srvMsgId (mbox w)"
  shows "reaction m w = (if t = REPLY then confirm_it m w else w)"
  using assms by (simp add: reaction_def accepted_def acknowledges_def)

subsection \<open>Concrete datagrams\<close>

definition demo_connection :: NetworkProtocol where
  "demo_connection = (new_UdpProtocol ''server'' 4567 250 3)\<lparr>sockfd := Some 9,
     server_addr := Some ([CHR ''a''], 4567)\<rparr>"

definition demo_world :: "Listener \<Rightarrow> World" where
  "demo_world l = \<lparr>lst = l, mbox = new_MailBox UDP (Some first_pipe), conn = Some demo_connection,
     kernel = first_kernel, con = []\<rparr>"

lemma demo_world_sel [simp]:
  "lst (demo_world l) = l" "conn (demo_world l) = Some demo_connection"
  "mbox (demo_world l) = new_MailBox UDP (Some first_pipe)" "kernel (demo_world l) = first_kernel"
  "port demo_connection = 4567" "protocol_type demo_connection = UDP" "conf_retries demo_connection = 3"
  "conf_timeout demo_connection = 250"
  "srvMsgId (new_MailBox t p) = -1" "incomingMails (new_MailBox t p) = []"
  "outgoingMails (new_MailBox t p) = []" "notifyListenerPipe (new_MailBox t p) = p"
  by (simp_all add: demo_world_def demo_connection_def new_UdpProtocol_def new_MailBox_def)

lemma demo_world_udp: "protocolType l = UDP \<Longrightarrow> udp_world (demo_world l)"
  by (simp add: udp_world_def conn_of_def new_MailBox_def)

definition demo_udp :: World where
  "demo_udp = demo_world (demo_listener UDP)"

lemma demo_udp_sel [simp]:
  "lst demo_udp = demo_listener UDP" "conn demo_udp = Some demo_connection"
  "mbox demo_udp = new_MailBox UDP (Some first_pipe)" "kernel demo_udp = first_kernel"
  "udp_world demo_udp" "refAuthId (demo_listener t) = -1"
  by (simp_all add: demo_udp_def demo_world_udp demo_listener_def new_Listener_def)

lemma small_readable: "reread_int 1 = 1" "reread_int 2 = 2" "readable 1" "\<not> readable 128"
  unfolding reread_int_def reread_def readable_def by code_simp+

definition demo_message :: "int \<Rightarrow> MessageData" where
  "demo_message i = TextMessage False i ''bob'' ''hi''"

lemma demo_message_good:
  "udp_good (demo_message 1)" "udp_good (demo_message 2)" "data_type (demo_message i) = MSG"
  "data_MessageID (demo_message i) = i" "length (server_datagram (demo_message i)) \<le> 1023"
  by (simp_all add: demo_message_def udp_good_def small_readable valid_name_def valid_content_def
      in_range_def code_def server_datagram_def wire_udp id_bytes_def)

subsection \<open>Properties of the UDP reception\<close>

text \<open>
  C8. Over UDP no message of the server is delivered twice, and none without a confirmation:
  whatever datagrams arrive, in whatever order and number, the mails added to the incoming
  queue carry strictly increasing identifiers above every one seen before, a confirmation of
  each is among the datagrams sent meanwhile, and nothing but confirmations is sent.
\<close>

theorem udp_at_most_once:
  assumes "udp_world w" and "receive_all g xs w = Inr w'"
  shows "\<exists>ms ps. incomingMails (mbox w') = incomingMails (mbox w) @ ms \<and>
    conn_payloads (conn w') = conn_payloads (conn w) @ ps \<and>
    sorted_wrt (<) (srvMsgId (mbox w) # map getMessageID ms) \<and>
    (\<forall>m \<in> set ms. confirmation (getMessageID m) \<in> set ps) \<and>
    (\<forall>p \<in> set ps. \<exists>i. p = confirmation i)"
  using receive_all_progress [OF assms(2,1)] unfolding udp_progress_def by fastforce

theorem udp_at_most_once_witness:
  "\<exists>w' ms ps. receive_all (\<lambda>_. None) [(Recv (server_datagram (demo_message 1)) 4567, 3)] demo_udp = Inr w' \<and>
    incomingMails (mbox w') = ms \<and> sorted_wrt (<) (-1 # map getMessageID ms) \<and>
    (\<forall>m \<in> set ms. confirmation (getMessageID m) \<in> set ps)"
proof -
  have "listenSocket (\<lambda>_. None) (Recv (server_datagram (demo_message 1)) 4567) 3 demo_udp =
      Inr (True, reaction (fill default_Mail MSG True (demo_message 1)) demo_udp)"
    using listenSocket_message [of demo_udp demo_connection "demo_message 1" 3 "\<lambda>_. None"]
    by (simp add: demo_message_good)
  then have r: "receive_all (\<lambda>_. None) [(Recv (server_datagram (demo_message 1)) 4567, 3)] demo_udp =
      Inr (reaction (fill default_Mail MSG True (demo_message 1)) demo_udp)"
    by (simp add: receive_all_def receive_one_def)
  show ?thesis using udp_at_most_once [OF _ r] r by auto
qed

text \<open>
  C7. A well-formed message of the server reaches the client: a valid message of any type but
  CONFIRM, in a datagram of at most 1023 bytes, whose identifier as the client reads it (see
  \<open>udp_image\<close>) is above the last one seen, and which names the last AUTH or JOIN if it is a REPLY, is
  delivered with its fields intact and confirmed once, under that identifier; when the same
  datagram comes again nothing is delivered, and only a REPLY is confirmed again, so that a lost
  confirmation of another message is never repeated.
\<close>

theorem server_message_delivered:
  assumes "udp_world w" and "conn w = Some c" and "valid_data d" and "data_type d \<notin> {CONFIRM, UNKNOWN}"
    and "length (server_datagram d) \<le> 1023" and "srvMsgId (mbox w) < data_MessageID (udp_image d)"
    and "data_type d = REPLY \<longrightarrow> data_RefMessageID (udp_image d) = refAuthId (lst w)" and "0 \<le> n"
  shows "\<exists>w1 w2. listenSocket g (Recv (server_datagram d) (port c)) n w = Inr (True, w1) \<and>
    incomingMails (mbox w1) = incomingMails (mbox w) @ [fill default_Mail (data_type d) True (udp_image d)] \<and>
    conn_payloads (conn w1) = conn_payloads (conn w) @ [confirmation (data_MessageID (udp_image d))] \<and>
    lst w1 = lst w \<and>
    listenSocket g (Recv (server_datagram d) (port c)) n w1 = Inr (True, w2) \<and>
    mbox w2 = mbox w1 \<and> lst w2 = lst w1 \<and> conn_payloads (conn w2) = conn_payloads (conn w1) @
      (if data_type d = REPLY then [confirmation (data_MessageID (udp_image d))] else [])"
proof -
  let ?m = "received d"
  let ?w1 = "reaction ?m w"
  have t: "data_type d \<noteq> CONFIRM" "data_type d \<noteq> UNKNOWN" using assms(4) by simp_all
  have "accepted ?m w" using assms(6,7) t by (auto simp: accepted_def)
  note taken = reaction_taken [OF this _ assms(1,2)]
  have q: "addToMailQueue ?m" using t by simp
  obtain c' where c': "conn ?w1 = Some c'" "port c' = port c" using taken(6) [OF q] by blast
  have one: "listenSocket g (Recv (server_datagram d) (port c)) n w = Inr (True, ?w1)"
    by (rule listenSocket_datagram [OF assms(1-3) t(2) assms(5,8)])
  have two: "listenSocket g (Recv (server_datagram d) (port c)) n ?w1 = Inr (True, reaction ?m ?w1)"
    using listenSocket_datagram [OF taken(1) [OF q] c'(1) assms(3) t(2) assms(5,8), of g] c'(2) by simp
  have old: "reaction ?m ?w1 = (if data_type d = REPLY then confirm_it ?m ?w1 else ?w1)"
    using reaction_old [of ?m "data_type d" ?w1] taken(5) [OF q] t by simp
  have "conn_of UDP (conn ?w1)" using taken(1) [OF q] by (simp add: udp_world_def)
  note pay = confirm_it_payloads [OF this, of ?m]
  have m: "fill default_Mail (data_type d) True (udp_image d) = ?m" using t by (simp add: received_def)
  show ?thesis
    unfolding m using one two old pay taken(2-4) [OF q]
    by (intro exI [of _ ?w1] exI [of _ "reaction ?m ?w1"]) simp
qed

theorem server_message_delivered_witness:
  "\<exists>w1. listenSocket (\<lambda>_. None) (Recv (server_datagram (demo_message 1)) 4567) 3 demo_udp = Inr (True, w1) \<and>
    incomingMails (mbox w1) = [fill default_Mail MSG True (demo_message 1)]"
  using server_message_delivered [of demo_udp demo_connection "demo_message 1" 3 "\<lambda>_. None"] demo_message_good(1)
  by (auto simp: demo_message_good udp_good_def)

text \<open>
  C21. A REPLY counts only for the request at hand: one with a new identifier that names
  another message than the last AUTH or JOIN sent changes nothing, neither delivered nor
  confirmed; one that names it is delivered and confirmed, and its duplicates are confirmed
  again without being delivered.
\<close>

theorem reply_matched:
  assumes "udp_world w" and "conn w = Some c" and "udp_good (ReplyMessage i r ref t)"
    and "length (server_datagram (ReplyMessage i r ref t)) \<le> 1023" and "srvMsgId (mbox w) < i" and "0 \<le> n"
  shows "\<exists>w'. listenSocket g (Recv (server_datagram (ReplyMessage i r ref t)) (port c)) n w = Inr (True, w') \<and>
    (if ref = refAuthId (lst w)
     then incomingMails (mbox w') = incomingMails (mbox w) @ [fill default_Mail REPLY True (ReplyMessage i r ref t)] \<and>
       conn_payloads (conn w') = conn_payloads (conn w) @ [confirmation i] \<and>
       (\<exists>w''. listenSocket g (Recv (server_datagram (ReplyMessage i r ref t)) (port c)) n w' = Inr (True, w'') \<and>
          mbox w'' = mbox w' \<and> conn_payloads (conn w'') = conn_payloads (conn w') @ [confirmation i])
     else w' = w)"
proof -
  let ?d = "ReplyMessage i r ref t"
  let ?m = "fill default_Mail REPLY True ?d"
  note one = listenSocket_message [OF assms(1-4,6), of g]
  have id: "getMessageID ?m = i" "getRefMessageID ?m = ref"
    by (simp_all add: getMessageID_def getRefMessageID_def)
  show ?thesis
  proof (cases "ref = refAuthId (lst w)")
    case True
    let ?w = "w\<lparr>mbox := (mbox w)\<lparr>srvMsgId := i\<rparr>\<rparr>"
    let ?w1 = "deliver ?m (confirm_it ?m ?w)"
    have r: "reaction ?m w = ?w1"
      using True assms(5) by (simp add: reaction_def accepted_def getMessageID_def getRefMessageID_def)
    have u: "udp_world ?w1" "conn_of UDP (conn ?w)" using assms(1) by (simp_all add: udp_world_def)
    obtain c' where c': "conn ?w1 = Some c'" "port c' = port c"
      using assms(2) by (simp add: confirm_it_def)
    have "reaction ?m ?w1 = confirm_it ?m ?w1"
      by (simp add: reaction_def accepted_def acknowledges_def id)
    with listenSocket_message [OF u(1) c'(1) assms(3,4,6), of g] c'
    have "listenSocket g (Recv (server_datagram ?d) (port c)) n ?w1 = Inr (True, confirm_it ?m ?w1)"
      by simp
    with one show ?thesis
      unfolding if_P [OF True]
      using u confirm_it_payloads [OF u(2), of ?m] confirm_it_payloads [of UDP ?w1 ?m]
      by (simp add: r id udp_world_def)
  next
    case False
    then have "reaction ?m w = w"
      using assms(5) by (auto simp: reaction_def accepted_def acknowledges_def id)
    with one False show ?thesis by simp
  qed
qed

theorem reply_matched_witness:
  "\<exists>w'. listenSocket (\<lambda>_. None) (Recv (server_datagram (ReplyMessage 1 True 2 ''ok'')) 4567) 3
      (demo_world ((demo_listener UDP)\<lparr>refAuthId := 2\<rparr>)) = Inr (True, w') \<and>
    incomingMails (mbox w') = [fill default_Mail REPLY True (ReplyMessage 1 True 2 ''ok'')]"
proof -
  let ?l = "(demo_listener UDP)\<lparr>refAuthId := 2\<rparr>"
  have "udp_world (demo_world ?l)"
    by (rule demo_world_udp) (simp add: demo_listener_def new_Listener_def)
  moreover have "udp_good (ReplyMessage 1 True 2 ''ok'')"
    by (simp add: udp_good_def small_readable valid_content_def in_range_def code_def)
  moreover have "length (server_datagram (ReplyMessage 1 True 2 ''ok'')) \<le> 1023"
    by (simp add: server_datagram_def id_bytes_def)
  ultimately show ?thesis
    using reply_matched [of "demo_world ?l" demo_connection 1 True 2 "''ok''" 3 "\<lambda>_. None"] by auto
qed

text \<open>
  C31. A message that comes late is lost: once a message with a higher identifier was taken (both
  identifiers as the client reads them), a datagram that was never seen is not delivered,
  and it is not confirmed either, unless it is a REPLY, which is confirmed though it is thrown away.
\<close>

theorem late_message_lost:
  assumes "udp_world w" and "conn w = Some c" and "valid_data d1" and "valid_data d2"
    and "data_type d1 \<notin> {CONFIRM, UNKNOWN}" and "data_type d2 \<notin> {CONFIRM, UNKNOWN}"
    and "data_MessageID (udp_image d1) < data_MessageID (udp_image d2)"
    and "srvMsgId (mbox w) < data_MessageID (udp_image d1)"
    and "data_type d2 = REPLY \<longrightarrow> data_RefMessageID (udp_image d2) = refAuthId (lst w)"
    and "length (server_datagram d1) \<le> 1023" and "length (server_datagram d2) \<le> 1023" and "0 \<le> n"
  shows "\<exists>w'. receive_all g [(Recv (server_datagram d2) (port c), n), (Recv (server_datagram d1) (port c), n)] w
      = Inr w' \<and>
    incomingMails (mbox w') = incomingMails (mbox w) @ [fill default_Mail (data_type d2) True (udp_image d2)] \<and>
    conn_payloads (conn w') = conn_payloads (conn w) @ confirmation (data_MessageID (udp_image d2)) #
      (if data_type d1 = REPLY then [confirmation (data_MessageID (udp_image d1))] else [])"
proof -
  let ?m = "received d2" and ?o = "received d1"
  let ?w1 = "reaction ?m w"
  have t: "data_type d1 \<noteq> CONFIRM" "data_type d1 \<noteq> UNKNOWN" "data_type d2 \<noteq> CONFIRM" "data_type d2 \<noteq> UNKNOWN"
    using assms(5,6) by simp_all
  have "accepted ?m w" using assms(7,8,9) t by (auto simp: accepted_def)
  note taken = reaction_taken [OF this _ assms(1,2)]
  have q: "addToMailQueue ?m" using t by simp
  obtain c' where c': "conn ?w1 = Some c'" "port c' = port c" using taken(6) [OF q] by blast
  have one: "listenSocket g (Recv (server_datagram d2) (port c)) n w = Inr (True, ?w1)"
    by (rule listenSocket_datagram [OF assms(1,2,4) t(4) assms(11,12)])
  have two: "listenSocket g (Recv (server_datagram d1) (port c)) n ?w1 = Inr (True, reaction ?o ?w1)"
    using listenSocket_datagram [OF taken(1) [OF q] c'(1) assms(3) t(2) assms(10,12), of g] c'(2) by simp
  have old: "reaction ?o ?w1 = (if data_type d1 = REPLY then confirm_it ?o ?w1 else ?w1)"
    using reaction_old [of ?o "data_type d1" ?w1] taken(5) [OF q] t assms(7) by simp
  have "conn_of UDP (conn ?w1)" using taken(1) [OF q] by (simp add: udp_world_def)
  note pay = confirm_it_payloads [OF this, of ?o]
  have run: "receive_all g [(Recv (server_datagram d2) (port c), n), (Recv (server_datagram d1) (port c), n)] w =
      Inr (reaction ?o ?w1)"
    using one two by (simp add: receive_all_def receive_one_def)
  have m: "fill default_Mail (data_type d2) True (udp_image d2) = ?m" using t by (simp add: received_def)
  show ?thesis
    unfolding m using run old pay taken(3,4) [OF q] by (intro exI [of _ "reaction ?o ?w1"]) simp
qed

theorem late_message_lost_witness:
  "\<exists>w'. receive_all (\<lambda>_. None) [(Recv (server_datagram (demo_message 2)) 4567, 3),
      (Recv (server_datagram (demo_message 1)) 4567, 3)] demo_udp = Inr w' \<and>
    incomingMails (mbox w') = [fill default_Mail MSG True (demo_message 2)]"
  using late_message_lost [of demo_udp demo_connection "demo_message 1" "demo_message 2" 3 "\<lambda>_. None"]
    demo_message_good(1,2)
  by (auto simp: demo_message_good udp_good_def)

text \<open>
  C38. A datagram longer than the 1024 bytes of the receive buffer is written past its end,
  though it may be a valid message: the limit given to \<open>recvfrom\<close> is 1500.
\<close>

theorem long_datagram_overruns:
  assumes "udp_world w" and "conn w = Some c" and "1024 < length bytes"
  shows "listenSocket g (Recv bytes p) n w = Inl (Undefined Overrun)"
  using assms udp_world_conn [OF assms(1,2)]
  by (auto simp: listenSocket_def receiveData_def udp_receiveData_def store_def zero_buffer_def)

theorem long_datagram_overruns_witness:
  "valid_data (TextMessage False 1 ''bob'' (replicate 1400 CHR ''a'')) \<and>
    listenSocket (\<lambda>_. None) (Recv (server_datagram (TextMessage False 1 ''bob'' (replicate 1400 CHR ''a''))) 4567)
      3 demo_udp = Inl (Undefined Overrun)"
proof
  show "valid_data (TextMessage False 1 ''bob'' (replicate 1400 CHR ''a''))"
    by (simp add: valid_name_def valid_content_def in_range_def code_def list_all_iff)
  show "listenSocket (\<lambda>_. None) (Recv (server_datagram (TextMessage False 1 ''bob'' (replicate 1400 CHR ''a'')))
      4567) 3 demo_udp = Inl (Undefined Overrun)"
    by (rule long_datagram_overruns) (simp_all add: server_datagram_def wire_udp id_bytes_def)
qed

text \<open>
  C22. A confirmation ends the wait for it and no other: the datagram CONFIRM of any identifier,
  when the client reads the awaited one from its two bytes, resets the retry counter and lets
  the next mail be sent; in every other case, and when nothing is awaited, it leaves the state
  as it is.
\<close>

theorem confirm_ends_wait:
  assumes "udp_world w" and "conn w = Some c" and "0 \<le> n"
  shows "listenSocket g (Recv (confirmation i) (port c)) n w = Inr (True,
    if reread_int i = refMsgId (lst w) \<and> \<not> receivedConfirm (lst w)
    then w\<lparr>lst := (lst w)\<lparr>receivedConfirm := True, retries := 0, refMsgId := -1\<rparr>\<rparr> else w)"
proof -
  have d: "server_datagram (ConfirmMessage i) = confirmation i" by (simp add: server_datagram_def confirmation_def)
  have "length (confirmation i) \<le> 1023" by (simp add: confirmation_def wire_udp id_bytes_def)
  then show ?thesis
    using listenSocket_datagram [OF assms(1,2), of "ConfirmMessage i" n g] assms(3)
    by (simp add: d reaction_def accepted_def acknowledges_def note_confirm_def)
qed

theorem confirm_ends_wait_witness:
  "\<exists>w w'. \<not> receivedConfirm (lst w) \<and> listenSocket (\<lambda>_. None) (Recv (confirmation 1) 4567) 3 w = Inr (True, w') \<and>
    receivedConfirm (lst w') \<and> listenSocket (\<lambda>_. None) (Recv (confirmation 2) 4567) 3 w = Inr (True, w)"
proof -
  let ?w = "demo_world ((demo_listener UDP)\<lparr>receivedConfirm := False, refMsgId := 1\<rparr>)"
  have "udp_world ?w" by (rule demo_world_udp) (simp add: demo_listener_def new_Listener_def)
  note c = confirm_ends_wait [OF this demo_world_sel(2), of 3 "\<lambda>_. None"]
  have "listenSocket (\<lambda>_. None) (Recv (confirmation 1) 4567) 3 ?w =
      Inr (True, ?w\<lparr>lst := (lst ?w)\<lparr>receivedConfirm := True, retries := 0, refMsgId := -1\<rparr>\<rparr>)"
    using c [of 1] by (simp add: small_readable)
  moreover have "listenSocket (\<lambda>_. None) (Recv (confirmation 2) 4567) 3 ?w = Inr (True, ?w)"
    using c [of 2] by (simp add: small_readable)
  ultimately show ?thesis
    by (intro exI [of _ ?w] exI [of _ "?w\<lparr>lst := (lst ?w)\<lparr>receivedConfirm := True, retries := 0, refMsgId := -1\<rparr>\<rparr>"] conjI)
      (simp_all only: demo_world_sel Listener.simps World.simps, simp_all)
qed

text \<open>
  A message whose identifier the client cannot read back is never confirmed: whatever
  the server sends, and however often it confirms, the listener stays in the wait for it
  (identifier 128 is the first of them).
\<close>

theorem unreadable_never_confirmed:
  assumes "udp_world w" and "\<not> receivedConfirm (lst w)" and "refMsgId (lst w) = uint v" and "\<not> readable v"
    and "receive_all g xs w = Inr w'"
  shows "lst w' = lst w"
proof -
  obtain ms ps where "udp_progress w ms ps w'"
    using receive_all_progress [OF assms(5,1)] by blast
  then show ?thesis using assms(3,4) by (auto simp: udp_progress_def)
qed

theorem unreadable_never_confirmed_witness:
  "\<exists>w w'. receive_all (\<lambda>_. None) [(Recv (confirmation 128) 4567, 3)] w = Inr w' \<and>
    refMsgId (lst w) = 128 \<and> \<not> receivedConfirm (lst w')"
proof -
  let ?w = "demo_world ((demo_listener UDP)\<lparr>receivedConfirm := False, refMsgId := 128\<rparr>)"
  have u: "udp_world ?w" by (rule demo_world_udp) (simp add: demo_listener_def new_Listener_def)
  have "confirmation 128 \<noteq> []" "length (confirmation 128) \<le> 1023"
    by (simp_all add: confirmation_def wire_udp id_bytes_def)
  note r = receive_datagram [OF demo_world_sel(6) this, of "\<lambda>_. None"]
  have m: "writeMail_buffer (confirmation 128 @ pad) default_Mail (mbox ?w) =
      Inr ([], True, fill default_Mail CONFIRM False (ConfirmMessage (reread_int 128)))" for pad
    using read_server_datagram [of "ConfirmMessage 128" pad default_Mail]
    by (simp add: writeMail_buffer_def new_MailBox_def server_datagram_def confirmation_def)
  have "listenSocket (\<lambda>_. None) (Recv (confirmation 128) 4567) 3 ?w = Inr (True,
      reaction (fill default_Mail CONFIRM False (ConfirmMessage (reread_int 128))) ?w)"
    by (rule listenSocket_mail [OF u _ _ _ r [unfolded demo_world_sel] m]) (simp_all add: typed_fill)
  then obtain w' where run: "receive_all (\<lambda>_. None) [(Recv (confirmation 128) 4567, 3)] ?w = Inr w'"
    by (auto simp: receive_all_def receive_one_def)
  have "lst w' = lst ?w"
    by (rule unreadable_never_confirmed [OF u _ _ small_readable(4) run]) simp_all
  with run show ?thesis by (intro exI [of _ ?w] exI [of _ w']) simp
qed

end
