(* ===== verification/Turns.thy ===== *)
theory Turns
  imports Reliability
begin

text \<open>
  The event loop of \<open>Listener::runListener\<close> as a step relation: one step is one turn of the
  loop, with an answer that \<open>epoll_wait\<close> can give. The invariant of the UDP listener, the
  stop-and-wait discipline, the bound on retransmissions, and the condition under which the
  loop ends.
\<close>

subsection \<open>The step relation\<close>

text \<open>
  \<open>epoll_wait\<close> reports at most ten descriptors, each once and only ones of the interest
  list, and lets the time run out only when the timeout is not negative.
\<close>

definition allowed :: "Turn \<Rightarrow> int \<Rightarrow> int list \<Rightarrow> bool" where
  "allowed e timeout watched = (case wake e of
       Interrupted \<Rightarrow> True
     | Timed_out \<Rightarrow> 0 \<le> timeout
     | Ready events \<Rightarrow> events \<noteq> [] \<and> length events \<le> 10 \<and> distinct (map fst events) \<and>
         set (map fst events) \<subseteq> set watched)"

definition possible :: "Turn \<Rightarrow> World \<Rightarrow> bool" where
  "possible e w = (case begin_turn e w of
       Inl _ \<Rightarrow> False | Inr (timeout, w) \<Rightarrow> allowed e timeout (interest (lst w)))"

inductive turn_step :: "(string \<Rightarrow> host_addr option) \<Rightarrow> World \<Rightarrow> World \<Rightarrow> bool"
  for g :: "string \<Rightarrow> host_addr option" where
  turn: "loop_guard (lst w) \<Longrightarrow> possible e w \<Longrightarrow> listener_turn g e w = Inr w' \<Longrightarrow> turn_step g w w'"

inductive_cases turn_stepE: "turn_step g w w'"

text \<open>The listener that \<open>runMain\<close> sets up and starts.\<close>

definition main_listener :: "int \<Rightarrow> int \<Rightarrow> int \<Rightarrow> int \<Rightarrow> ProtocolType \<Rightarrow> Listener" where
  "main_listener stdin sock send sig type =
     addFd sig SignalPipe (addFd send ToSendPipe (addFd sock SocketPipe (addFd stdin StdinPipe
       (new_Listener type))))"

definition started :: "Pipe \<Rightarrow> World \<Rightarrow> bool" where
  "started p w \<longleftrightarrow> (\<exists>stdin sock sig c. distinct [stdin, sock, getReadFd p, sig] \<and>
     registerFds (main_listener stdin sock (getReadFd p) sig UDP) = Inr (lst w) \<and>
     mbox w = new_MailBox UDP (Some p) \<and> conn w = Some c \<and> protocol_type c = UDP \<and> 0 \<le> conf_retries c)"

subsection \<open>What one event does\<close>

text \<open>The two lists that only the notification pipe lets shrink or grow.\<close>

lemma only_incomingD:
  "only_incoming w w' \<Longrightarrow> lst w' = lst w \<and> conn w' = conn w \<and>
    outgoingMails (mbox w') = outgoingMails (mbox w) \<and>
    notifyListenerPipe (mbox w') = notifyListenerPipe (mbox w) \<and>
    delivery_service (mbox w') = delivery_service (mbox w)"
  by (simp add: only_incoming_def)

text \<open>Two listeners that may differ in \<open>keepRunning\<close>.\<close>

definition same_but_keep :: "Listener \<Rightarrow> Listener \<Rightarrow> bool" where
  "same_but_keep l l' \<longleftrightarrow> (\<exists>k. l' = l\<lparr>keepRunning := k\<rparr>)"

lemma same_but_keep_refl [simp]: "same_but_keep l l"
  unfolding same_but_keep_def by (rule exI [of _ "keepRunning l"]) simp

lemma same_but_keep_update [simp]: "same_but_keep l (l\<lparr>keepRunning := k\<rparr>)"
  unfolding same_but_keep_def by blast

lemma same_but_keep_cleared: "same_but_keep l l' \<Longrightarrow> same_but_keep (cleared l) (cleared l')"
  by (cases l) (auto simp: same_but_keep_def cleared_def)

text \<open>An event that sends no mail of the outgoing queue.\<close>

definition quiet :: "World \<Rightarrow> World \<Rightarrow> bool" where
  "quiet w w' \<longleftrightarrow> outgoingMails (mbox w') = outgoingMails (mbox w) \<and>
     notifyListenerPipe (mbox w') = notifyListenerPipe (mbox w) \<and>
     (same_but_keep (lst w) (lst w') \<or> same_but_keep (cleared (lst w)) (lst w'))"

text \<open>Over UDP it moreover sends only confirmations and delivers only complete mails.\<close>

definition quiet_udp :: "World \<Rightarrow> World \<Rightarrow> bool" where
  "quiet_udp w w' \<longleftrightarrow> udp_world w' \<and> (same_but_keep (lst w) (lst w') \<or> readable_id (refMsgId (lst w))) \<and> retry_limit (conn w') = retry_limit (conn w) \<and>
     (\<exists>ms. incomingMails (mbox w') = incomingMails (mbox w) @ ms \<and> list_all queued ms) \<and>
     (\<exists>ps. conn_payloads (conn w') = conn_payloads (conn w) @ ps \<and> (\<forall>x \<in> set ps. \<exists>i. x = confirmation i))"

text \<open>The event that takes the next mail \<open>m\<close> of the outgoing queue and sends it.\<close>

definition sends :: "Mail \<Rightarrow> World \<Rightarrow> World \<Rightarrow> bool" where
  "sends m w w' \<longleftrightarrow> outgoingMails (mbox w) = m # outgoingMails (mbox w') \<and>
     notifyListenerPipe (mbox w') = notifyListenerPipe (mbox w) \<and> mtype m \<noteq> None \<and>
     (\<exists>b k. lst w' = note_sent m ((lst w)\<lparr>sentBye := b, keepRunning := k\<rparr>) \<and>
        (b \<longleftrightarrow> sentBye (lst w) \<or> mtype m = Some BYE))"

definition sends_udp :: "Mail \<Rightarrow> World \<Rightarrow> World \<Rightarrow> bool" where
  "sends_udp m w w' \<longleftrightarrow> udp_world w' \<and> retry_limit (conn w') = retry_limit (conn w) \<and>
     incomingMails (mbox w') = incomingMails (mbox w) \<and>
     (\<exists>b. serialize True m = Inr b \<and> conn_payloads (conn w') = conn_payloads (conn w) @ [b])"

lemma quiet_only_incoming: "only_incoming w w' \<Longrightarrow> quiet w w'"
  by (auto simp: quiet_def dest: only_incomingD)

lemma quiet_udp_only_incoming: "only_incoming w w' \<Longrightarrow> udp_world w \<Longrightarrow> quiet_udp w w'"
  by (auto simp: quiet_udp_def only_incoming_def udp_world_def)

lemma send_mail_sel:
  "send_mail n m w = Inr w' \<Longrightarrow> lst w' = lst w \<and> mbox w' = mbox w \<and> kernel w' = kernel w"
  by (auto simp: send_mail_def rbind_eq_Inr)

lemma accept_and_confirm_frame:
  "accept_and_confirm n m c w = Inr w' \<Longrightarrow> lst w' = lst w \<and>
    outgoingMails (mbox w') = outgoingMails (mbox w) \<and>
    notifyListenerPipe (mbox w') = notifyListenerPipe (mbox w)"
  by (auto simp: accept_and_confirm_def rbind_eq_Inr dest!: send_mail_sel)

lemma udp_incoming_frame:
  assumes "udp_incoming n m w = Inr w'"
  shows "lst w' \<in> {lst w, cleared (lst w)} \<and> outgoingMails (mbox w') = outgoingMails (mbox w) \<and>
    notifyListenerPipe (mbox w') = notifyListenerPipe (mbox w)"
proof (cases "mtype m")
  case (Some t)
  have "t = CONFIRM \<Longrightarrow> \<exists>ref. mdata m = ConfirmMessage ref"
    using assms Some by (cases "mdata m") (auto simp: udp_incoming_def rbind_eq_Inr)
  then show ?thesis
    using assms Some
    by (cases t) (auto simp: udp_incoming_def rbind_eq_Inr cleared_def split: if_splits
        dest!: accept_and_confirm_frame send_mail_sel)
qed (use assms in \<open>simp add: udp_incoming_def rbind_eq_Inr\<close>)

text \<open>\<open>listenSocket\<close> is the reception, which leaves mailbox and descriptors alone, and then one
  of the two ways to deal with the mail.\<close>

lemma listenSocket_cases:
  assumes "listenSocket g inc n w = Inr (b, w')"
  obtains out ok buffer c w1 m where "receiveData g inc zero_buffer (conn w) = Inr (out, ok, buffer, c)"
    "same_but_keep (lst w) (lst w1)" "mbox w1 = mbox w" "kernel w1 = kernel w" "conn w1 = c"
    "udp_incoming n m w1 = Inr w' \<or> w' = deliver m w1"
proof -
  from assms obtain out out' ok buffer c written m where
    rd: "receiveData g inc zero_buffer (conn w) = Inr (out, ok, buffer, c)" and r:
    "(let w1 = print (out @ out') (w\<lparr>conn := c\<rparr>);
           w1 = (if \<not> written then print [Stderr (''Failed to write mail from socket'' @ [LF])]
                       (w1\<lparr>lst := (lst w1)\<lparr>keepRunning := False\<rparr>\<rparr>) else w1)
       in if protocolType (lst w1) = UDP then rbind (udp_incoming n m w1) (\<lambda>w. Inr (True, w))
          else Inr (True, deliver m w1)) = Inr (b, w')"
    by (auto simp: listenSocket_def rbind_eq_Inr split: if_splits)
  define w1 where "w1 = (if \<not> written then print [Stderr (''Failed to write mail from socket'' @ [LF])]
      ((print (out @ out') (w\<lparr>conn := c\<rparr>))\<lparr>lst := (lst w)\<lparr>keepRunning := False\<rparr>\<rparr>)
      else print (out @ out') (w\<lparr>conn := c\<rparr>))"
  have w1: "same_but_keep (lst w) (lst w1)" "mbox w1 = mbox w" "kernel w1 = kernel w" "conn w1 = c"
    by (simp_all add: w1_def)
  have "udp_incoming n m w1 = Inr w' \<or> w' = deliver m w1"
    using r by (auto simp: w1_def Let_def rbind_eq_Inr split: if_splits)
  with rd w1 show thesis by (rule that)
qed

lemma listenSocket_quiet:
  assumes "listenSocket g inc n w = Inr (b, w')"
  shows "quiet w w'"
  using assms
proof (cases rule: listenSocket_cases)
  case (1 out ok buffer c w1 m)
  then show ?thesis
    using same_but_keep_cleared [OF 1(2)] by (auto simp: quiet_def dest!: udp_incoming_frame)
qed

lemma listenSocket_quiet_udp:
  assumes "listenSocket g inc n w = Inr (b, w')" and "udp_world w"
  shows "quiet_udp w w'"
proof -
  obtain ms ps where p: "udp_progress w ms ps w'" using listenSocket_progress [OF assms] by blast
  then have "same_but_keep (lst w) (lst w') \<or> readable_id (refMsgId (lst w))"
    by (auto simp: udp_progress_def)
  then show ?thesis using p by (auto simp: udp_progress_def quiet_udp_def list_all_iff)
qed

lemma clear_pipe_sel:
  "clear_pipe name fd w = Inr (b, w') \<Longrightarrow> \<exists>k. w' = w\<lparr>kernel := k\<rparr>"
  by (auto simp: clear_pipe_def Let_def split: prod.splits ReadResult.splits if_splits)

lemma listenSignal_quiet:
  assumes "listenSignal fd w = Inr (b, w')"
  shows "quiet w w' \<and> (udp_world w \<longrightarrow> quiet_udp w w')"
proof -
  from assms obtain ok w1 where c: "clear_pipe ''signal'' fd w = Inr (ok, w1)"
    and r: "(if \<not> ok then Inr (False, w1)
      else rbind (writeMail_type ERR default_Mail (-1) (mbox w1)) (\<lambda>mail.
          let w = deliver (mail\<lparr>sigint := True\<rparr>) w1
          in Inr (True, w\<lparr>lst := (lst w)\<lparr>keepRunning := False\<rparr>\<rparr>))) = Inr (b, w')"
    by (auto simp: listenSignal_def rbind_eq_Inr)
  obtain k where k: "w1 = w\<lparr>kernel := k\<rparr>" using clear_pipe_sel [OF c] by blast
  show ?thesis
  proof (cases ok)
    case True
    with r obtain m where m: "writeMail_type ERR default_Mail (-1) (mbox w1) = Inr m"
      "w' = (deliver (m\<lparr>sigint := True\<rparr>) w1)\<lparr>lst := (lst w1)\<lparr>keepRunning := False\<rparr>\<rparr>"
      by (auto simp: rbind_eq_Inr Let_def)
    have "queued (m\<lparr>sigint := True\<rparr>)"
      using writeMail_type_sound [OF m(1)] by (simp add: queued_def sound_def typed_def)
    then show ?thesis unfolding m(2) k by (auto simp: quiet_def quiet_udp_def udp_world_def)
  next
    case False
    with r show ?thesis by (auto simp: quiet_def quiet_udp_def udp_world_def k)
  qed
qed

lemma send_next_sends:
  assumes "send_next n w = Inr w'"
  shows "\<exists>m. sends m w w' \<and> (udp_world w \<longrightarrow> sends_udp m w w')"
proof -
  from assms obtain m rest t w1 where m: "outgoingMails (mbox w) = m # rest" "mtype m = Some t"
    and s: "send_mail n m (w\<lparr>mbox := (mbox w)\<lparr>outgoingMails := rest\<rparr>,
        lst := if t = BYE then (lst w)\<lparr>sentBye := True, keepRunning := False\<rparr> else lst w\<rparr>) = Inr w1"
    and w': "w' = w1\<lparr>lst := note_sent m (lst w1)\<rparr>"
    by (auto simp: send_next_def getOutgoingMail_def rbind_eq_Inr Let_def
        split: list.splits option.splits)
  note sel = send_mail_sel [OF s]
  have "sends m w w'"
    unfolding sends_def
    by (intro conjI exI [of _ "sentBye (lst w) \<or> t = BYE"] exI [of _ "keepRunning (lst w) \<and> t \<noteq> BYE"])
      (use m sel in \<open>auto simp: w'\<close>)
  moreover have "udp_world w \<Longrightarrow> sends_udp m w w'"
  proof -
    assume "udp_world w"
    moreover from this have "conn_of UDP (conn w)" by (simp add: udp_world_def)
    moreover from s obtain c where c: "sendData n m (conn w) = Inr c" "conn w1 = c"
      by (auto simp: send_mail_def rbind_eq_Inr)
    moreover have "protocolType (note_sent m l) = protocolType l" for l
      by (simp add: note_sent_def Let_def)
    ultimately show ?thesis
      using sendData_conn [of UDP "conn w" n m c] sel by (simp add: sends_udp_def udp_world_def w')
  qed
  ultimately show ?thesis by blast
qed

text \<open>One event: quiet, or a send when the descriptor is the one of the notification pipe.\<close>

lemma on_event_cases:
  assumes "on_event g (fd, inc, n) w = Inr w'"
  shows "quiet w w' \<and> (udp_world w \<longrightarrow> quiet_udp w w') \<or>
    map_of (fdMap (lst w)) fd = Some ToSendPipe \<and> (\<exists>m. sends m w w' \<and> (udp_world w \<longrightarrow> sends_udp m w w'))"
proof (cases "map_of (fdMap (lst w)) fd")
  case None
  then have "w' = w" using assms by (simp add: on_event_def)
  then show ?thesis by (simp add: quiet_def quiet_udp_def)
next
  case (Some t)
  show ?thesis
  proof (cases t)
    case StdinPipe
    then have "listenStdin fd w = Inr (True, w')" using assms Some
      by (auto simp: on_event_def checked_def rbind_eq_Inr split: if_splits)
    then show ?thesis
      using listenStdin_incoming quiet_only_incoming quiet_udp_only_incoming by blast
  next
    case SocketPipe
    then have "listenSocket g inc n w = Inr (True, w')" using assms Some
      by (auto simp: on_event_def checked_def rbind_eq_Inr split: if_splits)
    then show ?thesis using listenSocket_quiet listenSocket_quiet_udp by blast
  next
    case ToSendPipe
    then have "listenToSendPipe fd n w = Inr (True, w')" using assms Some
      by (auto simp: on_event_def checked_def rbind_eq_Inr split: if_splits)
    then obtain w1 k where c: "clear_pipe ''send'' fd w = Inr (True, w1)" "w1 = w\<lparr>kernel := k\<rparr>"
      and s: "send_next n w1 = Inr w'"
      by (auto simp: listenToSendPipe_def rbind_eq_Inr split: if_splits dest: clear_pipe_sel)
    from send_next_sends [OF s] c(2) obtain m where "sends m w w' \<and> (udp_world w \<longrightarrow> sends_udp m w w')"
      by (auto simp: sends_def sends_udp_def udp_world_def)
    with Some ToSendPipe show ?thesis by blast
  next
    case SignalPipe
    then have "listenSignal fd w = Inr (True, w')" using assms Some
      by (auto simp: on_event_def checked_def rbind_eq_Inr split: if_splits)
    then show ?thesis using listenSignal_quiet by blast
  next
    case Unknown
    then show ?thesis using assms Some by (simp add: on_event_def)
  qed
qed

subsection \<open>The invariant of the UDP listener\<close>

definition wired :: "Pipe \<Rightarrow> World \<Rightarrow> bool" where
  "wired p w \<longleftrightarrow> notifyListenerPipe (mbox w) = Some p \<and>
     (\<forall>fd. map_of (fdMap (lst w)) fd = Some ToSendPipe \<longrightarrow> fd = getReadFd p) \<and>
     distinct (interest (lst w)) \<and>
     (toSendRegistered (lst w) \<longleftrightarrow> getReadFd p \<in> set (interest (lst w)))"

text \<open>\<open>R\<close> is the number of retries of the connection.\<close>

definition ack_inv :: "int \<Rightarrow> Listener \<Rightarrow> bool" where
  "ack_inv R l \<longleftrightarrow> 0 \<le> retries l \<and> retries l \<le> R \<and>
     (if receivedConfirm l then retries l = 0 \<and> refMsgId l = -1
      else mtype (confMail l) \<noteq> None \<and> refMsgId l = getMessageID (confMail l))"

definition turn_inv :: "Pipe \<Rightarrow> int \<Rightarrow> World \<Rightarrow> bool" where
  "turn_inv p R w \<longleftrightarrow> wired p w \<and> udp_world w \<and> retry_limit (conn w) = Some R \<and> ack_inv R (lst w)"

lemma same_but_keep_sel:
  "same_but_keep l l' \<Longrightarrow> fdMap l' = fdMap l \<and> interest l' = interest l \<and>
    toSendRegistered l' = toSendRegistered l \<and> receivedConfirm l' = receivedConfirm l \<and>
    retries l' = retries l \<and> refMsgId l' = refMsgId l \<and> confMail l' = confMail l \<and>
    sentBye l' = sentBye l \<and> refAuthId l' = refAuthId l \<and> protocolType l' = protocolType l"
  by (auto simp: same_but_keep_def)

lemma cleared_sel [simp]:
  "fdMap (cleared l) = fdMap l" "interest (cleared l) = interest l"
  "toSendRegistered (cleared l) = toSendRegistered l" "receivedConfirm (cleared l)"
  "retries (cleared l) = 0" "refMsgId (cleared l) = -1" "confMail (cleared l) = confMail l"
  "sentBye (cleared l) = sentBye l" "protocolType (cleared l) = protocolType l"
  by (simp_all add: cleared_def)

lemma quiet_sel:
  "quiet w w' \<Longrightarrow> fdMap (lst w') = fdMap (lst w) \<and> interest (lst w') = interest (lst w) \<and>
    toSendRegistered (lst w') = toSendRegistered (lst w) \<and> confMail (lst w') = confMail (lst w) \<and>
    sentBye (lst w') = sentBye (lst w) \<and> outgoingMails (mbox w') = outgoingMails (mbox w) \<and>
    notifyListenerPipe (mbox w') = notifyListenerPipe (mbox w) \<and>
    (receivedConfirm (lst w) \<longrightarrow> receivedConfirm (lst w'))"
  unfolding quiet_def by (auto dest!: same_but_keep_sel)

lemma quiet_ack: "quiet w w' \<Longrightarrow> ack_inv R (lst w) \<Longrightarrow> ack_inv R (lst w')"
  unfolding quiet_def ack_inv_def by (auto dest!: same_but_keep_sel split: if_splits)

lemma quiet_inv:
  assumes "turn_inv p R w" and "quiet w w'" and "quiet_udp w w'"
  shows "turn_inv p R w'"
  using assms(1,3) quiet_ack [OF assms(2)] quiet_sel [OF assms(2)]
  by (simp add: turn_inv_def wired_def quiet_udp_def)

lemma note_sent_sel [simp]:
  "fdMap (note_sent m l) = fdMap l" "interest (note_sent m l) = interest l"
  "toSendRegistered (note_sent m l) = toSendRegistered l" "retries (note_sent m l) = retries l"
  "sentBye (note_sent m l) = sentBye l" "protocolType (note_sent m l) = protocolType l"
  by (simp_all add: note_sent_def Let_def)

lemma note_sent_udp:
  "protocolType l = UDP \<Longrightarrow> \<not> receivedConfirm (note_sent m l) \<and> refMsgId (note_sent m l) = getMessageID m \<and>
    confMail (note_sent m l) = m"
  by (simp add: note_sent_def Let_def)

lemma sends_inv: "turn_inv p R w \<Longrightarrow> sends m w w' \<Longrightarrow> sends_udp m w w' \<Longrightarrow> turn_inv p R w'"
  using note_sent_udp
  by (auto simp: turn_inv_def wired_def ack_inv_def sends_def sends_udp_def udp_world_def)

lemma on_event_inv:
  assumes "turn_inv p R w" and "on_event g x w = Inr w'"
  shows "turn_inv p R w'"
proof -
  obtain fd inc n where x: "x = (fd, inc, n)" by (rule prod_cases3)
  have "udp_world w" using assms(1) by (simp add: turn_inv_def)
  with on_event_cases [OF assms(2) [unfolded x]]
  consider "quiet w w'" "quiet_udp w w'" | m where "sends m w w'" "sends_udp m w w'" by blast
  then show ?thesis using quiet_inv [OF assms(1)] sends_inv [OF assms(1)] by cases
qed

text \<open>What precedes the wait: the notification pipe is watched exactly when no confirmation is
  awaited.\<close>

definition settles :: "Pipe \<Rightarrow> World \<Rightarrow> World \<Rightarrow> bool" where
  "settles p w w' \<longleftrightarrow> wired p w' \<and> (\<exists>i sw. w' = w\<lparr>lst := (lst w)\<lparr>interest := i,
     toSendRegistered := receivedConfirm (lst w), stopWatch := sw\<rparr>\<rparr>)"

lemma sync_settles:
  assumes "wired p w"
  shows "\<exists>i. sync_interest w = Inr (w\<lparr>lst := (lst w)\<lparr>interest := i,
      toSendRegistered := receivedConfirm (lst w)\<rparr>\<rparr>) \<and>
    distinct i \<and> (receivedConfirm (lst w) \<longleftrightarrow> getReadFd p \<in> set i)"
proof -
  have same: "receivedConfirm (lst w) = toSendRegistered (lst w) \<Longrightarrow>
      w\<lparr>lst := (lst w)\<lparr>interest := interest (lst w), toSendRegistered := receivedConfirm (lst w)\<rparr>\<rparr> = w"
    by simp
  consider "receivedConfirm (lst w) = toSendRegistered (lst w)"
    | "\<not> receivedConfirm (lst w)" "toSendRegistered (lst w)"
    | "receivedConfirm (lst w)" "\<not> toSendRegistered (lst w)" by blast
  then show ?thesis
  proof cases
    case 1
    then have "sync_interest w = Inr w" by (simp add: sync_interest_def)
    then show ?thesis using 1 same assms
      by (intro exI [of _ "interest (lst w)"]) (simp add: wired_def)
  next
    case 2
    then show ?thesis using assms
      by (intro exI [of _ "filter (\<lambda>f. f \<noteq> getReadFd p) (interest (lst w))"])
        (simp add: sync_interest_def notify_fd_def unregisterFd_def wired_def Let_def)
  next
    case 3
    then show ?thesis using assms
      by (intro exI [of _ "getReadFd p # interest (lst w)"])
        (simp add: sync_interest_def notify_fd_def registerFd_def wired_def Let_def)
  qed
qed

text \<open>A turn is a wait in a settled world and what follows it.\<close>

lemma begin_turn_settles:
  assumes "wired p w" and "conn w = Some c"
  shows "\<exists>t w3. begin_turn e w = Inr (t, w3) \<and> settles p w w3 \<and> (receivedConfirm (lst w) \<longrightarrow> t = -1)"
proof -
  from sync_settles [OF assms(1)] obtain i where i: "sync_interest w = Inr (w\<lparr>lst := (lst w)\<lparr>interest := i,
      toSendRegistered := receivedConfirm (lst w)\<rparr>\<rparr>)"
    "distinct i" "receivedConfirm (lst w) \<longleftrightarrow> getReadFd p \<in> set i" by blast
  let ?w1 = "w\<lparr>lst := (lst w)\<lparr>interest := i, toSendRegistered := receivedConfirm (lst w)\<rparr>\<rparr>"
  obtain t sw where t: "next_timeout (t_duration e) ?w1 = Inr (t, ?w1\<lparr>lst := (lst ?w1)\<lparr>stopWatch := sw\<rparr>\<rparr>)"
    "receivedConfirm (lst w) \<longrightarrow> t = -1"
  proof (cases "receivedConfirm (lst w)")
    case True
    then show thesis by (intro that [of "-1" "stopWatch (lst w)"]) (simp_all add: next_timeout_def)
  next
    case False
    then show thesis
      using assms(2) by (intro that) (simp_all add: next_timeout_def getTimeout_def deref_def case_prod_beta Let_def)
  qed
  let ?w3 = "w\<lparr>lst := (lst w)\<lparr>interest := i, toSendRegistered := receivedConfirm (lst w),
      stopWatch := sw_stop (t_stop e) (sw_start (t_start e) sw)\<rparr>\<rparr>"
  have "wired p ?w3" using assms(1) i(2,3) by (simp add: wired_def)
  then have "settles p w ?w3" unfolding settles_def by blast
  moreover have "begin_turn e w = Inr (t, ?w3)"
    unfolding begin_turn_def i(1) rbind_Inr t(1) by simp
  ultimately show ?thesis using t(2) by blast
qed

lemma turn_settled:
  assumes "turn_inv p R w"
  shows "\<exists>t w3. settles p w w3 \<and> (receivedConfirm (lst w) \<longrightarrow> t = -1) \<and>
    turn_body g e w = after_wait g e w3 \<and> possible e w = allowed e t (interest (lst w3))"
proof -
  obtain c where "wired p w" "conn w = Some c"
    using assms by (auto simp: turn_inv_def retry_limit_def)
  then obtain t w3 where "begin_turn e w = Inr (t, w3)" "settles p w w3" "receivedConfirm (lst w) \<longrightarrow> t = -1"
    using begin_turn_settles by blast
  then show ?thesis by (intro exI [of _ t] exI [of _ w3]) (simp add: turn_body_def possible_def)
qed

lemma settles_inv: "turn_inv p R w \<Longrightarrow> settles p w w' \<Longrightarrow> turn_inv p R w'"
  by (auto simp: turn_inv_def settles_def udp_world_def ack_inv_def)

lemma settles_sel:
  "settles p w w' \<Longrightarrow> mbox w' = mbox w \<and> conn w' = conn w \<and> fdMap (lst w') = fdMap (lst w) \<and>
    receivedConfirm (lst w') = receivedConfirm (lst w) \<and> retries (lst w') = retries (lst w) \<and>
    refMsgId (lst w') = refMsgId (lst w) \<and> confMail (lst w') = confMail (lst w) \<and>
    sentBye (lst w') = sentBye (lst w) \<and> keepRunning (lst w') = keepRunning (lst w) \<and>
    (getReadFd p \<in> set (interest (lst w')) \<longleftrightarrow> receivedConfirm (lst w))"
  by (auto simp: settles_def wired_def)

text \<open>A retransmission.\<close>

definition resends :: "World \<Rightarrow> World \<Rightarrow> bool" where
  "resends w w' \<longleftrightarrow> mbox w' = mbox w \<and> retry_limit (conn w') = retry_limit (conn w) \<and> udp_world w' \<and>
     (\<exists>sw. lst w' = (lst w)\<lparr>stopWatch := sw, retries := retries (lst w) + 1\<rparr>) \<and>
     (\<exists>b. serialize True (confMail (lst w)) = Inr b \<and> conn_payloads (conn w') = conn_payloads (conn w) @ [b])"

lemma on_timeout_resends:
  assumes "turn_inv p R w" and "on_timeout now n w = Inr w'"
  shows "resends w w' \<and> retries (lst w) < R"
proof -
  obtain c where c: "conn w = Some c" "conf_retries c = R" "conn_of UDP (conn w)" "protocolType (lst w) = UDP"
    "delivery_service (mbox w) = UDP"
    using assms(1) by (auto simp: turn_inv_def udp_world_def retry_limit_def)
  with assms(2) obtain conn' where s: "retries (lst w) < R" "sendData n (confMail (lst w)) (conn w) = Inr conn'"
    "w' = w\<lparr>lst := (lst w)\<lparr>stopWatch := sw_reset now (stopWatch (lst w)), retries := retries (lst w) + 1\<rparr>,
      conn := conn'\<rparr>"
    by (auto simp: on_timeout_def getRetries_def deref_def send_mail_def rbind_eq_Inr split: if_splits)
  with sendData_conn [OF c(3) s(2)] c show ?thesis
    by (auto simp: resends_def udp_world_def intro: exI [of _ "sw_reset now (stopWatch (lst w))"])
qed

lemma resends_inv:
  assumes "turn_inv p R w" and "resends w w'" and "retries (lst w) < R" and "\<not> receivedConfirm (lst w)"
  shows "turn_inv p R w'"
  using assms by (auto simp: turn_inv_def resends_def wired_def ack_inv_def)

text \<open>What a step is made of.\<close>

lemma listener_turn_Inr: "listener_turn g e w = Inr w' \<longleftrightarrow> turn_body g e w = Inr w'"
  by (auto simp: listener_turn_def guarded_def split: sum.splits fault.splits)

lemma turn_step_cases:
  assumes "turn_step g w w'" and "turn_inv p R w"
  obtains (idle) "settles p w w'"
  | (resend) w1 where "settles p w w1" "\<not> receivedConfirm (lst w)" "resends w1 w'" "retries (lst w) < R"
  | (events) w1 evs where "settles p w w1" "distinct (map fst evs)"
      "set (map fst evs) \<subseteq> set (interest (lst w1))" "rfold (on_event g) evs w1 = Inr w'"
proof -
  from assms(1) obtain e where e: "possible e w" "turn_body g e w = Inr w'"
    by (auto elim!: turn_stepE simp: listener_turn_Inr)
  obtain t w3 where s: "settles p w w3" "receivedConfirm (lst w) \<longrightarrow> t = -1"
    "turn_body g e w = after_wait g e w3" "possible e w = allowed e t (interest (lst w3))"
    using turn_settled [OF assms(2)] by blast
  show thesis
  proof (cases "wake e")
    case Interrupted
    then show ?thesis using idle s e by (simp add: after_wait_def)
  next
    case Timed_out
    then have "on_timeout (t_reset e) (n_resend e) w3 = Inr w'" "\<not> receivedConfirm (lst w)"
      using s e by (auto simp: after_wait_def allowed_def)
    with on_timeout_resends [OF settles_inv [OF assms(2) s(1)]] resend [OF s(1)] settles_sel [OF s(1)]
    show ?thesis by metis
  next
    case (Ready evs)
    then show ?thesis using events s e by (auto simp: after_wait_def allowed_def)
  qed
qed

lemma turn_step_inv: "turn_inv p R w \<Longrightarrow> turn_step g w w' \<Longrightarrow> turn_inv p R w'"
proof (erule turn_step_cases, assumption)
  fix w1 assume *: "turn_inv p R w" "settles p w w1" "\<not> receivedConfirm (lst w)" "resends w1 w'"
    "retries (lst w) < R"
  then show "turn_inv p R w'"
    using resends_inv [OF settles_inv [OF *(1,2)] *(4)] settles_sel [OF *(2)] by simp
next
  fix w1 evs assume *: "turn_inv p R w" "settles p w w1" "rfold (on_event g) evs w1 = Inr w'"
  show "turn_inv p R w'"
    by (rule rfold_inv [where P = "turn_inv p R", OF *(3) settles_inv [OF *(1,2)]]) (rule on_event_inv)
qed (rule settles_inv)

subsection \<open>The start\<close>

lemma main_listener_fdMap:
  "distinct [stdin, sock, send, sig] \<Longrightarrow> fdMap (main_listener stdin sock send sig t) =
    [(sig, SignalPipe), (send, ToSendPipe), (sock, SocketPipe), (stdin, StdinPipe)]"
  by (auto simp: main_listener_def addFd_def new_Listener_def)

lemma main_listener_registered:
  "distinct [stdin, sock, send, sig] \<Longrightarrow> registerFds (main_listener stdin sock send sig t) =
    Inr ((main_listener stdin sock send sig t)\<lparr>interest := [stdin, sock, send, sig]\<rparr>)"
  by (auto simp: registerFds_def registerFd_def main_listener_def addFd_def new_Listener_def)

lemma started_inv:
  assumes "started p w"
  shows "\<exists>R. turn_inv p R w"
proof -
  obtain stdin sock sig c where d: "distinct [stdin, sock, getReadFd p, sig]"
    and r: "registerFds (main_listener stdin sock (getReadFd p) sig UDP) = Inr (lst w)"
    and w: "mbox w = new_MailBox UDP (Some p)" "conn w = Some c" "protocol_type c = UDP" "0 \<le> conf_retries c"
    using assms unfolding started_def by blast
  note m = main_listener_fdMap [OF d, of UDP]
  have "lst w = (main_listener stdin sock (getReadFd p) sig UDP)\<lparr>interest := [stdin, sock, getReadFd p, sig]\<rparr>"
    using r main_listener_registered [OF d, of UDP] by simp
  then have "turn_inv p (conf_retries c) w"
    using d w m by (auto simp: turn_inv_def wired_def ack_inv_def udp_world_def conn_of_def retry_limit_def
        main_listener_def addFd_def new_Listener_def new_MailBox_def split: if_splits)
  then show ?thesis ..
qed

text \<open>The listener as an instance of the step relations with an invariant.\<close>

definition listener_ok :: "Pipe \<Rightarrow> World \<Rightarrow> bool" where
  "listener_ok p w \<longleftrightarrow> (\<exists>R. turn_inv p R w)"

interpretation turns: step_invariant "started p" "turn_step g" "listener_ok p" for p g
proof
  show "listener_ok p w" if "started p w" for w using started_inv [OF that] by (simp add: listener_ok_def)
  show "listener_ok p w'" if "listener_ok p w" "turn_step g w w'" for w w'
    using that unfolding listener_ok_def by (blast intro: turn_step_inv)
qed

subsection \<open>Events of a turn\<close>

text \<open>What events other than the notification may do.\<close>

definition silent :: "World \<Rightarrow> World \<Rightarrow> bool" where
  "silent w w' \<longleftrightarrow> quiet w w' \<and>
     (\<exists>ps. conn_payloads (conn w') = conn_payloads (conn w) @ ps \<and> (\<forall>x \<in> set ps. \<exists>i. x = confirmation i)) \<and>
     (\<exists>ms. incomingMails (mbox w') = incomingMails (mbox w) @ ms \<and> list_all queued ms) \<and>
     (same_but_keep (lst w) (lst w') \<or> readable_id (refMsgId (lst w)))"

lemma quiet_refl: "quiet w w"
  by (simp add: quiet_def)

lemma same_but_keep_trans: "same_but_keep a b \<Longrightarrow> same_but_keep b c \<Longrightarrow> same_but_keep a c"
  by (auto simp: same_but_keep_def)

lemma cleared_cleared [simp]: "cleared (cleared l) = cleared l"
  by (simp add: cleared_def)

lemma quiet_trans:
  assumes "quiet u v" and "quiet v w"
  shows "quiet u w"
proof -
  have "same_but_keep (cleared (lst v)) (lst w) \<Longrightarrow> same_but_keep (cleared (lst u)) (lst w)"
    using assms(1) same_but_keep_cleared [of "lst u" "lst v"]
      same_but_keep_cleared [of "cleared (lst u)" "lst v"] same_but_keep_trans
    unfolding quiet_def by (metis cleared_cleared)
  then show ?thesis using assms same_but_keep_trans unfolding quiet_def by metis
qed

lemma silent_refl: "silent w w"
  by (simp add: silent_def quiet_refl)

lemma silent_trans:
  assumes "silent u v" and "silent v w"
  shows "silent u w"
proof -
  have "same_but_keep (lst u) (lst w) \<or> readable_id (refMsgId (lst u))"
    using assms same_but_keep_trans same_but_keep_sel unfolding silent_def by metis
  moreover obtain ps ms where "conn_payloads (conn v) = conn_payloads (conn u) @ ps"
    "\<forall>x \<in> set ps. \<exists>i. x = confirmation i"
    "incomingMails (mbox v) = incomingMails (mbox u) @ ms" "list_all queued ms"
    using assms(1) unfolding silent_def by blast
  moreover obtain ps' ms' where "conn_payloads (conn w) = conn_payloads (conn v) @ ps'"
    "\<forall>x \<in> set ps'. \<exists>i. x = confirmation i"
    "incomingMails (mbox w) = incomingMails (mbox v) @ ms'" "list_all queued ms'"
    using assms(2) unfolding silent_def by blast
  moreover have "quiet u w" using assms quiet_trans unfolding silent_def by blast
  ultimately show ?thesis unfolding silent_def by auto
qed

lemma silent_outgoing: "silent w w' \<Longrightarrow> outgoingMails (mbox w') = outgoingMails (mbox w)"
  using quiet_sel by (simp add: silent_def)

lemma sends_outgoing: "sends m w w' \<Longrightarrow> outgoingMails (mbox w) = m # outgoingMails (mbox w')"
  by (simp add: sends_def)

lemma on_event_silent:
  assumes "turn_inv p R w" and "on_event g x w = Inr w'" and "fst x \<noteq> getReadFd p"
  shows "silent w w'"
proof -
  obtain fd inc n where x: "x = (fd, inc, n)" by (rule prod_cases3)
  have "map_of (fdMap (lst w)) fd \<noteq> Some ToSendPipe" "udp_world w"
    using assms(1,3) x by (auto simp: turn_inv_def wired_def)
  with on_event_cases [OF assms(2) [unfolded x]] have "quiet w w'" "quiet_udp w w'" by blast+
  then show ?thesis by (auto simp: silent_def quiet_udp_def)
qed

lemma on_event_notify:
  assumes "turn_inv p R w" and "on_event g x w = Inr w'"
  shows "silent w w' \<or> (\<exists>m. sends m w w' \<and> sends_udp m w w')"
proof -
  obtain fd inc n where x: "x = (fd, inc, n)" by (rule prod_cases3)
  have "udp_world w" using assms(1) by (simp add: turn_inv_def)
  with on_event_cases [OF assms(2) [unfolded x]] show ?thesis
    by (auto simp: silent_def quiet_udp_def)
qed

lemma events_silent:
  "rfold (on_event g) evs w = Inr w' \<Longrightarrow> turn_inv p R w \<Longrightarrow> getReadFd p \<notin> set (map fst evs) \<Longrightarrow> silent w w'"
proof (induction evs arbitrary: w)
  case (Cons x evs)
  from Cons.prems(1) obtain w1 where w1: "on_event g x w = Inr w1" "rfold (on_event g) evs w1 = Inr w'"
    by (auto simp: rbind_eq_Inr)
  have "silent w w1" using on_event_silent [OF Cons.prems(2) w1(1)] Cons.prems(3) by auto
  moreover have "silent w1 w'"
    using Cons.IH [OF w1(2) on_event_inv [OF Cons.prems(2) w1(1)]] Cons.prems(3) by auto
  ultimately show ?case by (rule silent_trans)
qed (simp add: silent_refl)

text \<open>Distinct events: all silent, or one send between silent ones.\<close>

lemma events_split:
  assumes "rfold (on_event g) evs w = Inr w'" and "turn_inv p R w" and "distinct (map fst evs)"
    and "getReadFd p \<in> set (map fst evs)"
  shows "silent w w' \<or> (\<exists>w1 w2 m. silent w w1 \<and> sends m w1 w2 \<and> sends_udp m w1 w2 \<and> silent w2 w')"
proof -
  obtain x where "x \<in> set evs" "fst x = getReadFd p" using assms(4) by auto
  then obtain xs ys where evs: "evs = xs @ x # ys" by (meson split_list)
  have n: "getReadFd p \<notin> set (map fst xs)" "getReadFd p \<notin> set (map fst ys)"
    using assms(3) \<open>fst x = getReadFd p\<close> by (auto simp: evs)
  from assms(1) obtain w1 w2 where r: "rfold (on_event g) xs w = Inr w1" "on_event g x w1 = Inr w2"
    "rfold (on_event g) ys w2 = Inr w'"
    by (auto simp: evs rfold_append rbind_eq_Inr)
  have s: "silent w w1" using events_silent [OF r(1) assms(2) n(1)] .
  have i1: "turn_inv p R w1"
    by (rule rfold_inv [where P = "turn_inv p R", OF r(1) assms(2)]) (rule on_event_inv)
  have s': "silent w2 w'" using events_silent [OF r(3) on_event_inv [OF i1 r(2)] n(2)] .
  from on_event_notify [OF i1 r(2)] s s' show ?thesis using silent_trans by meson
qed

subsection \<open>Concrete worlds\<close>

definition demo_main :: Listener where
  "demo_main = (main_listener 5 9 3 7 UDP)\<lparr>interest := [5, 9, 3, 7]\<rparr>"

definition demo_started :: World where
  "demo_started = demo_world demo_main"

lemmas demo_main_defs = demo_main_def main_listener_def addFd_def new_Listener_def

lemma demo_started_started: "started first_pipe demo_started"
  unfolding started_def demo_started_def
  by (rule exI [of _ 5], rule exI [of _ 9], rule exI [of _ 7], rule exI [of _ demo_connection])
    (simp add: demo_main_defs registerFds_def registerFd_def getReadFd_def first_pipe_def)

text \<open>The same listener waiting for the confirmation of a BYE with identifier \<open>n\<close>, after a wait
  from \<open>t1\<close> to \<open>t2\<close>.\<close>

definition demo_waiting :: "int \<Rightarrow> int \<Rightarrow> World" where
  "demo_waiting n t2 = demo_world (demo_main\<lparr>receivedConfirm := False, refMsgId := n,
     confMail := fill default_Mail BYE True (ByeMessage n), stopWatch := sw_stop t2 (sw_start 0 (new_StopWatch 0))\<rparr>)"

lemma demo_waiting_sel [simp]:
  "conn (demo_waiting n t) = Some demo_connection" "\<not> receivedConfirm (lst (demo_waiting n t))"
  "refMsgId (lst (demo_waiting n t)) = n" "retries (lst (demo_waiting n t)) = 0"
  "confMail (lst (demo_waiting n t)) = fill default_Mail BYE True (ByeMessage n)"
  "\<not> sentBye (lst (demo_waiting n t))" "outgoingMails (mbox (demo_waiting n t)) = []"
  "stopWatch (lst (demo_waiting n t)) = sw_stop t (sw_start 0 (new_StopWatch 0))"
  by (simp_all add: demo_waiting_def demo_main_defs)

lemma demo_waiting_inv: "turn_inv first_pipe 3 (demo_waiting n t)"
proof -
  have "udp_world (demo_waiting n t)"
    unfolding demo_waiting_def by (rule demo_world_udp) (simp add: demo_main_defs)
  moreover have "retry_limit (conn (demo_waiting n t)) = Some 3" by (simp add: retry_limit_def)
  moreover have "wired first_pipe (demo_waiting n t)"
    by (simp add: wired_def demo_waiting_def demo_main_defs first_pipe_def getReadFd_def)
  ultimately show ?thesis
    by (simp add: turn_inv_def ack_inv_def getMessageID_def)
qed

lemma demo_waiting_ok: "listener_ok first_pipe (demo_waiting n t)"
  using demo_waiting_inv by (auto simp: listener_ok_def)

text \<open>A wait that a signal interrupts.\<close>

lemma demo_waiting_step: "\<exists>w'. turn_step g (demo_waiting n t) w'"
proof -
  let ?e = "quiet_turn Interrupted"
  obtain t' w3 where "turn_body g ?e (demo_waiting n t) = after_wait g ?e w3"
    "possible ?e (demo_waiting n t) = allowed ?e t' (interest (lst w3))"
    using turn_settled [OF demo_waiting_inv [of n t], of g ?e] by blast
  then have "possible ?e (demo_waiting n t)" "listener_turn g ?e (demo_waiting n t) = Inr w3"
    by (simp_all add: allowed_def after_wait_def quiet_turn_def listener_turn_Inr)
  moreover have "loop_guard (lst (demo_waiting n t))" by (simp add: loop_guard_def)
  ultimately show ?thesis using turn_step.turn by blast
qed

subsection \<open>Properties of the event loop\<close>

text \<open>
  C9. Stop and wait: while a confirmation is awaited a turn of the loop takes no mail from the
  outgoing queue, and all it sends are the unconfirmed mail again and confirmations; in every
  turn at most one mail is taken.
\<close>

theorem stop_and_wait:
  assumes "listener_ok p w" and "turn_step g w w'"
  shows "(outgoingMails (mbox w') = outgoingMails (mbox w) \<or>
      receivedConfirm (lst w) \<and> (\<exists>m. outgoingMails (mbox w) = m # outgoingMails (mbox w'))) \<and>
    (\<not> receivedConfirm (lst w) \<longrightarrow> confMail (lst w') = confMail (lst w) \<and>
      (\<exists>ps. conn_payloads (conn w') = conn_payloads (conn w) @ ps \<and>
         (\<forall>x \<in> set ps. serialize True (confMail (lst w)) = Inr x \<or> (\<exists>i. x = confirmation i))))"
proof -
  obtain R where inv: "turn_inv p R w" using assms(1) by (auto simp: listener_ok_def)
  from assms(2) inv show ?thesis
  proof (cases rule: turn_step_cases)
    case idle
    then show ?thesis using settles_sel [OF idle] by simp
  next
    case (resend w1)
    then show ?thesis using settles_sel [OF resend(1)] by (auto simp: resends_def)
  next
    case (events w1 evs)
    note sel = settles_sel [OF events(1)]
    note i1 = settles_inv [OF inv events(1)]
    show ?thesis
    proof (cases "getReadFd p \<in> set (map fst evs)")
      case True
      then have "receivedConfirm (lst w)" using events(3) sel by blast
      moreover have "outgoingMails (mbox w') = outgoingMails (mbox w1) \<or>
          (\<exists>m. outgoingMails (mbox w1) = m # outgoingMails (mbox w'))"
        using events_split [OF events(4) i1 events(2) True] silent_outgoing sends_outgoing by metis
      ultimately show ?thesis using sel by simp
    next
      case False
      then have s: "silent w1 w'" using events_silent [OF events(4) i1] by simp
      then have q: "quiet w1 w'" by (simp add: silent_def)
      obtain ps where ps: "conn_payloads (conn w') = conn_payloads (conn w1) @ ps"
        "\<forall>x \<in> set ps. \<exists>i. x = confirmation i" using s unfolding silent_def by blast
      show ?thesis using sel quiet_sel [OF q] ps by simp
    qed
  qed
qed

theorem stop_and_wait_witness:
  "\<exists>w'. turn_step (\<lambda>_. None) (demo_waiting 0 0) w' \<and> outgoingMails (mbox w') = [] \<and>
    confMail (lst w') = fill default_Mail BYE True (ByeMessage 0)"
proof -
  obtain w' where s: "turn_step (\<lambda>_. None) (demo_waiting 0 0) w'" using demo_waiting_step by blast
  from stop_and_wait [OF demo_waiting_ok s] s show ?thesis by auto
qed

text \<open>A stopped watch that shows no more than the time limit.\<close>

definition in_time :: "int \<Rightarrow> StopWatch \<Rightarrow> bool" where
  "in_time T sw \<longleftrightarrow> isStopped sw \<and> 0 \<le> fst (sw_duration 0 sw) \<and> fst (sw_duration 0 sw) \<le> T"

lemma duration_any: "isStopped sw \<Longrightarrow> sw_duration now sw = (fst (sw_duration 0 sw), sw)"
  by (simp add: sw_duration_def)

lemma in_time_reset: "0 \<le> T \<Longrightarrow> isStopped sw \<Longrightarrow> in_time T (sw_reset now sw)"
  using duration_reset [of sw 0 now] by (simp add: in_time_def sw_reset_def)

text \<open>Then the next wait has a limit, and its time can run out.\<close>

lemma timed_wait:
  assumes "turn_inv p R w" and "conn w = Some c" and "\<not> receivedConfirm (lst w)"
    and "in_time (conf_timeout c) (stopWatch (lst w))"
  shows "\<exists>t w3. begin_turn e w = Inr (t, w3) \<and> 0 \<le> t \<and> t \<le> conf_timeout c \<and> isStopped (stopWatch (lst w3)) \<and>
    settles p w w3"
proof -
  obtain t w3 where b: "begin_turn e w = Inr (t, w3)" "settles p w w3"
    using begin_turn_settles [of p w c e] assms(1,2) by (auto simp: turn_inv_def)
  obtain i where i: "sync_interest w = Inr (w\<lparr>lst := (lst w)\<lparr>interest := i,
      toSendRegistered := receivedConfirm (lst w)\<rparr>\<rparr>)"
    using sync_settles [of p w] assms(1) by (auto simp: turn_inv_def)
  have d: "sw_duration (t_duration e) (stopWatch (lst w)) = (fst (sw_duration 0 (stopWatch (lst w))), stopWatch (lst w))"
    using assms(4) duration_any [of "stopWatch (lst w)" "t_duration e"] by (simp only: in_time_def)
  have "t = conf_timeout c - fst (sw_duration 0 (stopWatch (lst w)))" "isStopped (stopWatch (lst w3))"
    using b(1) assms(2,3) i d by (auto simp: begin_turn_def next_timeout_def getTimeout_def deref_def sw_stop_def)
  then show ?thesis using b assms(4) by (intro exI [of _ t] exI [of _ w3]) (simp add: in_time_def)
qed

text \<open>A turn in which the time runs out.\<close>

lemma timeout_turn:
  assumes "turn_inv p R w" and "conn w = Some c" and "\<not> receivedConfirm (lst w)"
    and "in_time (conf_timeout c) (stopWatch (lst w))"
    and "wake e = Timed_out" and "0 \<le> n_resend e" and "serialize True (confMail (lst w)) = Inr b"
  shows "possible e w" and "retries (lst w) = R \<Longrightarrow> listener_turn g e w = Inl (Exit 1 [Stderr (''ERR: Server not responding'' @ [LF])])"
    and "retries (lst w) < R \<Longrightarrow> \<exists>w' c'. listener_turn g e w = Inr w' \<and> turn_inv p R w' \<and> \<not> receivedConfirm (lst w') \<and>
      confMail (lst w') = confMail (lst w) \<and> retries (lst w') = retries (lst w) + 1 \<and> conn w' = Some c' \<and>
      conf_timeout c' = conf_timeout c \<and> in_time (conf_timeout c) (stopWatch (lst w')) \<and>
      conn_payloads (conn w') = conn_payloads (conn w) @ [b]"
proof -
  obtain t w3 where b: "begin_turn e w = Inr (t, w3)" "0 \<le> t" "isStopped (stopWatch (lst w3))" "settles p w w3"
    using timed_wait [OF assms(1-4)] by blast
  show "possible e w" using b(1,2) assms(5) by (simp add: possible_def allowed_def)
  note i3 = settles_inv [OF assms(1) b(4)] and sel = settles_sel [OF b(4)]
  have c: "conn w3 = Some c" "conf_retries c = R" "conn_of UDP (conn w3)"
    using i3 sel assms(2) by (auto simp: turn_inv_def udp_world_def retry_limit_def)
  have body: "turn_body g e w = on_timeout (t_reset e) (n_resend e) w3"
    using b(1) assms(5) by (simp add: turn_body_def after_wait_def)
  {
    assume "retries (lst w) = R"
    then have "turn_body g e w = Inl (Runtime_error ''Server not responding'')"
      using body c sel by (simp add: on_timeout_def getRetries_def deref_def)
    then show "listener_turn g e w = Inl (Exit 1 [Stderr (''ERR: Server not responding'' @ [LF])])"
      by (simp add: listener_turn_def guarded_def)
  next
    assume lt: "retries (lst w) < R"
    let ?c = "c\<lparr>sent := sent c @ [(server_addr c, b)]\<rparr>"
    let ?w = "w3\<lparr>lst := (lst w3)\<lparr>stopWatch := sw_reset (t_reset e) (stopWatch (lst w3)),
      retries := retries (lst w3) + 1\<rparr>, conn := Some ?c\<rparr>"
    have "sendData (n_resend e) (confMail (lst w3)) (conn w3) = Inr (Some ?c)"
      using sendData_Inr [OF c(3)] c(1) assms(6,7) sel by auto
    then have t: "on_timeout (t_reset e) (n_resend e) w3 = Inr ?w"
      using lt c sel by (simp add: on_timeout_def getRetries_def deref_def send_mail_def)
    note r = on_timeout_resends [OF i3 t]
    have "turn_inv p R ?w" using resends_inv [OF i3 _ _] r sel assms(3) by simp
    moreover have "in_time (conf_timeout c) (sw_reset (t_reset e) (stopWatch (lst w3)))"
      using assms(4) by (intro in_time_reset [OF _ b(3)]) (simp add: in_time_def)
    ultimately show "\<exists>w' c'. listener_turn g e w = Inr w' \<and> turn_inv p R w' \<and> \<not> receivedConfirm (lst w') \<and>
        confMail (lst w') = confMail (lst w) \<and> retries (lst w') = retries (lst w) + 1 \<and> conn w' = Some c' \<and>
        conf_timeout c' = conf_timeout c \<and> in_time (conf_timeout c) (stopWatch (lst w')) \<and>
        conn_payloads (conn w') = conn_payloads (conn w) @ [b]"
      using t body sel assms(2,3) by (intro exI [of _ ?w] exI [of _ ?c]) (simp add: listener_turn_Inr conn_payloads_def)
  }
qed

text \<open>Any number of them, within the limit.\<close>

lemma silence:
  assumes "list_all (\<lambda>e. wake e = Timed_out \<and> 0 \<le> n_resend e) es"
  shows "turn_inv p R w \<Longrightarrow> conn w = Some c \<Longrightarrow> \<not> receivedConfirm (lst w) \<Longrightarrow>
    in_time (conf_timeout c) (stopWatch (lst w)) \<Longrightarrow> serialize True (confMail (lst w)) = Inr b \<Longrightarrow>
    retries (lst w) + int (length es) \<le> R \<Longrightarrow>
    \<exists>w' c'. rfold (listener_turn g) es w = Inr w' \<and> turn_inv p R w' \<and> \<not> receivedConfirm (lst w') \<and>
      confMail (lst w') = confMail (lst w) \<and> retries (lst w') = retries (lst w) + int (length es) \<and> conn w' = Some c' \<and>
      conf_timeout c' = conf_timeout c \<and> in_time (conf_timeout c) (stopWatch (lst w')) \<and>
      conn_payloads (conn w') = conn_payloads (conn w) @ replicate (length es) b"
  using assms
proof (induction es arbitrary: w c)
  case Nil
  then show ?case by simp
next
  case (Cons e es)
  have e: "wake e = Timed_out" "0 \<le> n_resend e" "list_all (\<lambda>e. wake e = Timed_out \<and> 0 \<le> n_resend e) es"
    using Cons.prems(7) by simp_all
  have "retries (lst w) < R" using Cons.prems(6) by simp
  from timeout_turn(3) [OF Cons.prems(1-4) e(1,2) Cons.prems(5) this, of g] obtain w1 c1 where
    w1: "listener_turn g e w = Inr w1" "turn_inv p R w1" "\<not> receivedConfirm (lst w1)"
      "confMail (lst w1) = confMail (lst w)" "retries (lst w1) = retries (lst w) + 1" "conn w1 = Some c1"
      "conf_timeout c1 = conf_timeout c" "in_time (conf_timeout c) (stopWatch (lst w1))"
      "conn_payloads (conn w1) = conn_payloads (conn w) @ [b]" by blast
  have "serialize True (confMail (lst w1)) = Inr b" "retries (lst w1) + int (length es) \<le> R"
    using w1(4,5) Cons.prems(5,6) by simp_all
  from Cons.IH [OF w1(2,6,3) _ this e(3)] w1 obtain w2 c2 where
    "rfold (listener_turn g) es w1 = Inr w2" "turn_inv p R w2" "\<not> receivedConfirm (lst w2)"
      "confMail (lst w2) = confMail (lst w1)" "retries (lst w2) = retries (lst w1) + int (length es)" "conn w2 = Some c2"
      "conf_timeout c2 = conf_timeout c1" "in_time (conf_timeout c1) (stopWatch (lst w2))"
      "conn_payloads (conn w2) = conn_payloads (conn w1) @ replicate (length es) b" by auto
  with w1 show ?case by (intro exI [of _ w2] exI [of _ c2]) simp
qed

text \<open>
  C10. A server that stays silent ends the client, when the wait before was not longer than the
  confirmation timeout (otherwise C32 applies). However many waits have expired, up to the retries
  that are left, each of them has sent the unconfirmed mail once more, byte for byte, and
  nothing else; the next wait has again a limit between 0 and the timeout, in milliseconds,
  so its time can run out; and once all retries are used up, the wait that then expires ends
  the process with status 1. A silence lasts so at most one timeout more than there are retries.
\<close>

theorem silent_server_ends_client:
  assumes "listener_ok p w" and "conn w = Some c" and "\<not> receivedConfirm (lst w)"
    and "serialize True (confMail (lst w)) = Inr b"
    and "stopWatch (lst w) = sw_stop t2 (sw_start t1 sw)" and "t1 \<le> t2" and "to_ms (t2 - t1) \<le> conf_timeout c"
    and "list_all (\<lambda>e. wake e = Timed_out \<and> 0 \<le> n_resend e) es" and "retries (lst w) + int (length es) \<le> conf_retries c"
  shows "\<exists>w'. rfold (listener_turn g) es w = Inr w' \<and> loop_guard (lst w') \<and> \<not> receivedConfirm (lst w') \<and>
    conn_payloads (conn w') = conn_payloads (conn w) @ replicate (length es) b \<and>
    (\<forall>e. \<exists>t w3. begin_turn e w' = Inr (t, w3) \<and> 0 \<le> t \<and> t \<le> conf_timeout c) \<and>
    (\<forall>e. wake e = Timed_out \<and> 0 \<le> n_resend e \<longrightarrow> possible e w' \<and>
       (if retries (lst w) + int (length es) = conf_retries c
        then listener_turn g e w' = Inl (Exit 1 [Stderr (''ERR: Server not responding'' @ [LF])])
        else \<exists>w''. listener_turn g e w' = Inr w''))"
proof -
  obtain R where inv: "turn_inv p R w" using assms(1) by (auto simp: listener_ok_def)
  then have R: "R = conf_retries c" using assms(2) by (simp add: turn_inv_def retry_limit_def)
  have "in_time (conf_timeout c) (stopWatch (lst w))"
    using assms(6,7) duration_stopped by (simp add: in_time_def assms(5) to_ms_def sw_stop_def)
  from silence [OF assms(8) inv assms(2,3) this assms(4), of g] obtain w' c' where
    w': "rfold (listener_turn g) es w = Inr w'" "turn_inv p R w'" "\<not> receivedConfirm (lst w')"
      "confMail (lst w') = confMail (lst w)" "retries (lst w') = retries (lst w) + int (length es)" "conn w' = Some c'"
      "conf_timeout c' = conf_timeout c" "in_time (conf_timeout c) (stopWatch (lst w'))"
      "conn_payloads (conn w') = conn_payloads (conn w) @ replicate (length es) b" using assms(9) R by auto
  have watch: "in_time (conf_timeout c') (stopWatch (lst w'))" using w'(7,8) by simp
  have ser: "serialize True (confMail (lst w')) = Inr b" using w'(4) assms(4) by simp
  have wait: "\<exists>t w3. begin_turn e w' = Inr (t, w3) \<and> 0 \<le> t \<and> t \<le> conf_timeout c" for e
    using timed_wait [OF w'(2,6,3) watch, of e] w'(7) by auto
  have expire: "possible e w' \<and> (if retries (lst w) + int (length es) = conf_retries c
      then listener_turn g e w' = Inl (Exit 1 [Stderr (''ERR: Server not responding'' @ [LF])])
      else \<exists>w''. listener_turn g e w' = Inr w'')"
    if "wake e = Timed_out \<and> 0 \<le> n_resend e" for e
    using timeout_turn(1) [OF w'(2,6,3) watch _ _ ser, of e] timeout_turn(2,3) [OF w'(2,6,3) watch _ _ ser, of e g]
      that w'(5) R assms(9) by auto
  have "loop_guard (lst w')" using w'(3) by (simp add: loop_guard_def)
  with w'(1,3,9) wait expire show ?thesis by (intro exI [of _ w'] conjI allI impI) simp_all
qed

theorem silent_server_ends_client_witness:
  "\<exists>w'. rfold (listener_turn (\<lambda>_. None)) (replicate 3 (quiet_turn Timed_out)) (demo_waiting 0 0) = Inr w' \<and>
    conn_payloads (conn w') = replicate 3 [CHR 0xFF, CHR 0x00, CHR 0x00] \<and> possible (quiet_turn Timed_out) w' \<and>
    listener_turn (\<lambda>_. None) (quiet_turn Timed_out) w' = Inl (Exit 1 [Stderr (''ERR: Server not responding'' @ [LF])])"
proof -
  have ser: "serialize True (confMail (lst (demo_waiting 0 0))) = Inr [CHR 0xFF, CHR 0x00, CHR 0x00]"
    unfolding demo_waiting_sel by code_simp
  have "list_all (\<lambda>e. wake e = Timed_out \<and> 0 \<le> n_resend e) (replicate 3 (quiet_turn Timed_out))"
    by (simp add: list_all_iff quiet_turn_def)
  from silent_server_ends_client [OF demo_waiting_ok demo_waiting_sel(1,2) ser demo_waiting_sel(8) _ _ this, of "\<lambda>_. None"]
  obtain w' where "rfold (listener_turn (\<lambda>_. None)) (replicate 3 (quiet_turn Timed_out)) (demo_waiting 0 0) = Inr w'"
    "conn_payloads (conn w') = conn_payloads (conn (demo_waiting 0 0)) @ replicate 3 [CHR 0xFF, CHR 0x00, CHR 0x00]"
    "\<forall>e. wake e = Timed_out \<and> 0 \<le> n_resend e \<longrightarrow> possible e w' \<and>
       listener_turn (\<lambda>_. None) e w' = Inl (Exit 1 [Stderr (''ERR: Server not responding'' @ [LF])])"
    by (auto simp: to_ms_def)
  moreover have "conn_payloads (conn (demo_waiting 0 0)) = []"
    by (simp add: conn_payloads_def demo_connection_def new_UdpProtocol_def)
  ultimately show ?thesis by (intro exI [of _ w']) (simp add: quiet_turn_def)
qed

text \<open>
  C29. From the message on whose identifier the client cannot read back (128, the 129th mail of
  a session), the UDP client sends nothing any more: in every state it can reach from the one
  that waits for its confirmation, the wait goes on and the outgoing queue is as it was.
\<close>

theorem unreadable_id_blocks_client:
  assumes "listener_ok p w" and "(turn_step g)\<^sup>*\<^sup>* w w'" and "\<not> receivedConfirm (lst w)"
    and "refMsgId (lst w) = uint v" and "\<not> readable v"
  shows "\<not> receivedConfirm (lst w') \<and> outgoingMails (mbox w') = outgoingMails (mbox w)"
proof -
  let ?P = "\<lambda>u. listener_ok p u \<and> \<not> receivedConfirm (lst u) \<and> refMsgId (lst u) = uint v \<and>
    outgoingMails (mbox u) = outgoingMails (mbox w)"
  have "?P w'"
    using assms(2)
  proof (induction rule: rtranclp_induct)
    case (step u u')
    then obtain R where inv: "turn_inv p R u" by (auto simp: listener_ok_def)
    have ok: "listener_ok p u'" using turns.inv_step step by blast
    from step(2) inv show ?case
    proof (cases rule: turn_step_cases)
      case idle
      then show ?thesis using step.IH ok settles_sel [OF idle] by simp
    next
      case (resend w1)
      then show ?thesis using step.IH ok settles_sel [OF resend(1)] by (auto simp: resends_def)
    next
      case (events w1 evs)
      note sel = settles_sel [OF events(1)]
      have "getReadFd p \<notin> set (map fst evs)" using events(3) sel step.IH by blast
      then have s: "silent w1 u'" using events_silent [OF events(4) settles_inv [OF inv events(1)]] by simp
      then have "same_but_keep (lst w1) (lst u')"
        using sel step.IH assms(5) by (auto simp: silent_def)
      then show ?thesis using ok sel step.IH same_but_keep_sel silent_outgoing [OF s] by metis
    qed
  qed (use assms in simp)
  then show ?thesis by simp
qed

theorem unreadable_id_blocks_client_witness:
  "\<exists>w'. turn_step (\<lambda>_. None) (demo_waiting 128 0) w' \<and> \<not> receivedConfirm (lst w')"
proof -
  obtain w' where s: "turn_step (\<lambda>_. None) (demo_waiting 128 0) w'" using demo_waiting_step by blast
  have "refMsgId (lst (demo_waiting 128 0)) = uint (128 :: u16)" by simp
  from unreadable_id_blocks_client [OF demo_waiting_ok r_into_rtranclp [of "turn_step (\<lambda>_. None)", OF s] demo_waiting_sel(2) this]
    small_readable(4) s show ?thesis by auto
qed

subsection \<open>The end of the loop\<close>

definition no_bye :: "World \<Rightarrow> bool" where
  "no_bye w \<longleftrightarrow> \<not> sentBye (lst w) \<and> (\<forall>m \<in> set (outgoingMails (mbox w)). mtype m \<noteq> Some BYE)"

lemma no_bye_guard: "no_bye w \<Longrightarrow> loop_guard (lst w)"
  by (simp add: no_bye_def loop_guard_def)

lemma no_bye_event:
  assumes "no_bye w" and "on_event g x w = Inr w'"
  shows "no_bye w'"
proof -
  obtain fd inc n where x: "x = (fd, inc, n)" by (rule prod_cases3)
  from on_event_cases [OF assms(2) [unfolded x]]
  consider "quiet w w'" | m where "sends m w w'" by blast
  then show ?thesis
  proof cases
    case 1
    then show ?thesis using assms(1) quiet_sel by (simp add: no_bye_def)
  next
    case 2
    then show ?thesis using assms(1) by (auto simp: no_bye_def sends_def)
  qed
qed

lemma no_bye_same:
  "no_bye w \<Longrightarrow> sentBye (lst w') = sentBye (lst w) \<Longrightarrow>
    outgoingMails (mbox w') = outgoingMails (mbox w) \<Longrightarrow> no_bye w'"
  by (simp add: no_bye_def)

lemma sync_interest_sel:
  "sync_interest w = Inr w' \<Longrightarrow> sentBye (lst w') = sentBye (lst w) \<and> mbox w' = mbox w"
  by (auto simp: sync_interest_def Let_def rbind_eq_Inr registerFd_def unregisterFd_def split: if_splits)

lemma next_timeout_sel:
  "next_timeout now w = Inr (t, w') \<Longrightarrow> sentBye (lst w') = sentBye (lst w) \<and> mbox w' = mbox w"
  by (auto simp: next_timeout_def rbind_eq_Inr Let_def case_prod_beta split: if_splits)

lemma on_timeout_sel:
  "on_timeout now n w = Inr w' \<Longrightarrow> sentBye (lst w') = sentBye (lst w) \<and> mbox w' = mbox w"
  by (auto simp: on_timeout_def rbind_eq_Inr split: if_splits dest!: send_mail_sel)

lemma begin_turn_sel:
  "begin_turn e w = Inr (t, w') \<Longrightarrow> sentBye (lst w') = sentBye (lst w) \<and> mbox w' = mbox w"
  by (auto simp: begin_turn_def rbind_eq_Inr dest!: sync_interest_sel next_timeout_sel)

lemma no_bye_wait:
  assumes "no_bye w" and "after_wait g e w = Inr w'"
  shows "no_bye w'"
proof (cases "wake e")
  case Interrupted
  then show ?thesis using assms by (simp add: after_wait_def)
next
  case Timed_out
  then show ?thesis using no_bye_same [OF assms(1)] assms(2) on_timeout_sel by (simp add: after_wait_def)
next
  case (Ready evs)
  then have "rfold (on_event g) evs w = Inr w'" using assms(2) by (simp add: after_wait_def)
  then show ?thesis using assms(1) by (rule rfold_inv) (rule no_bye_event)
qed

lemma no_bye_turn:
  assumes "no_bye w" and "turn_step g w w'"
  shows "no_bye w'"
proof -
  from assms(2) obtain e t w1 where w1: "begin_turn e w = Inr (t, w1)" "after_wait g e w1 = Inr w'"
    by (auto elim!: turn_stepE simp: listener_turn_Inr turn_body_def rbind_eq_Inr)
  have "no_bye w1" using no_bye_same [OF assms(1)] begin_turn_sel [OF w1(1)] by simp
  then show ?thesis using w1(2) by (rule no_bye_wait)
qed

interpretation open_loop: step_invariant no_bye "turn_step g" no_bye for g
  by unfold_locales (simp_all add: no_bye_turn)

text \<open>
  C27. The loop does not end unless a BYE is sent: from a state in which none was sent and none
  is in the outgoing queue, the condition of the loop holds in every state the listener can
  reach, whether \<open>keepRunning\<close> was cleared or not, over UDP and over TCP alike.
\<close>

theorem no_end_without_bye:
  assumes "\<not> sentBye (lst w)" and "\<forall>m \<in> set (outgoingMails (mbox w)). mtype m \<noteq> Some BYE"
    and "(turn_step g)\<^sup>*\<^sup>* w w'"
  shows "loop_guard (lst w') \<and> \<not> sentBye (lst w')"
proof -
  have "no_bye w" using assms(1,2) by (simp add: no_bye_def)
  from open_loop.steps_inv [OF assms(3) this] show ?thesis by (simp add: no_bye_guard) (simp add: no_bye_def)
qed

theorem no_end_without_bye_witness:
  "\<exists>w'. turn_step (\<lambda>_. None) (demo_waiting 0 0) w' \<and> loop_guard (lst w')"
proof -
  obtain w' where s: "turn_step (\<lambda>_. None) (demo_waiting 0 0) w'" using demo_waiting_step by blast
  from no_end_without_bye [OF _ _ r_into_rtranclp [of "turn_step (\<lambda>_. None)", OF s]] s show ?thesis by auto
qed

text \<open>
  C32. The timer counts only the last wait. When the wait before was longer than the confirmation
  timeout and ended with an event, the timeout of the next wait is negative, which for
  \<open>epoll_wait\<close> is no timeout at all: the time cannot run out, and nothing is retransmitted
  until something else happens.
\<close>

theorem late_timer_never_fires:
  assumes "listener_ok p w" and "conn w = Some c" and "\<not> receivedConfirm (lst w)"
    and "stopWatch (lst w) = sw_stop t2 (sw_start t1 sw)" and "conf_timeout c < to_ms (t2 - t1)"
    and "wake e = Timed_out"
  shows "\<not> possible e w"
proof -
  obtain R where "turn_inv p R w" using assms(1) by (auto simp: listener_ok_def)
  then obtain i where i: "sync_interest w = Inr (w\<lparr>lst := (lst w)\<lparr>interest := i,
      toSendRegistered := receivedConfirm (lst w)\<rparr>\<rparr>)"
    using sync_settles [of p w] by (auto simp: turn_inv_def)
  show ?thesis
    using assms(2-6)
    by (simp add: possible_def begin_turn_def allowed_def i next_timeout_def getTimeout_def deref_def duration_stopped)
qed

theorem late_timer_never_fires_witness:
  "\<not> possible (quiet_turn Timed_out) (demo_waiting 0 300000000)"
  using late_timer_never_fires [OF demo_waiting_ok demo_waiting_sel(1,2,8)]
  by (simp add: quiet_turn_def to_ms_def)

end
