(* ===== verification/Stdin_Listener.thy ===== *)
theory Stdin_Listener
  imports Pipes Streams
begin

text \<open>
  The class \<open>StdinListener\<close> of \<open>listeners.cpp\<close>: the thread that copies the lines of standard
  input into the pipe of the listener, and asks for the end of the session when the input
  ends. One turn of its loop takes what \<open>select\<close> answers; a line comes without its end, as
  \<open>std::getline\<close> stores it.
\<close>

datatype Select =
    Select_error
  | Select_timeout
  | Input_line string       \<comment> \<open>\<open>std::getline\<close> succeeds\<close>
  | Input_end               \<comment> \<open>\<open>std::getline\<close> fails\<close>

record StdinListener =
  stdin_pipe :: Pipe
  stdin_running :: bool

definition new_StdinListener :: "Pipe \<Rightarrow> StdinListener" where
  "new_StdinListener p = \<lparr>stdin_pipe = p, stdin_running = True\<rparr>"

text \<open>
  The part of \<open>stop\<close> and of the destructor before the thread is joined; the destructor only
  looks after a thread that was not joined yet.
\<close>

definition stdin_stop :: "StdinListener \<Rightarrow> StdinListener" where
  "stdin_stop s = s\<lparr>stdin_running := False\<rparr>"

definition destroy_StdinListener :: "bool \<Rightarrow> StdinListener \<Rightarrow> StdinListener" where
  "destroy_StdinListener joinable s = (if joinable then s\<lparr>stdin_running := False\<rparr> else s)"

text \<open>One turn of the loop; the first component tells whether the loop goes on.\<close>

definition stdin_turn :: "int \<Rightarrow> Select \<Rightarrow> StdinListener \<Rightarrow> Kernel \<Rightarrow> (bool \<times> Kernel) result" where
  "stdin_turn writeSignalFd x s k =
     (if \<not> stdin_running s then Inr (False, k)
      else case x of
        Select_error \<Rightarrow> Inr (False, k)
      | Select_timeout \<Rightarrow> Inr (True, k)
      | Input_line line \<Rightarrow> rbind (Pipe_write (stdin_pipe s) (line @ [LF]) k) (\<lambda>k. Inr (True, k))
      | Input_end \<Rightarrow> (case sys_write writeSignalFd ''1'' k of
            None \<Rightarrow> Inl (Runtime_error ''Failed to write to signal pipe'')
          | Some k \<Rightarrow> Inr (False, k)))"

fun stdin_run :: "int \<Rightarrow> Select list \<Rightarrow> StdinListener \<Rightarrow> Kernel \<Rightarrow> (bool \<times> Kernel) result" where
  "stdin_run fd [] s k = Inr (True, k)"
| "stdin_run fd (x # xs) s k =
     rbind (stdin_turn fd x s k) (\<lambda>(go, k). if go then stdin_run fd xs s k else Inr (False, k))"

text \<open>The lines of an input, up to its end.\<close>

fun input_lines :: "Select list \<Rightarrow> string list" where
  "input_lines [] = []"
| "input_lines (Input_line l # xs) = l # input_lines xs"
| "input_lines (Select_timeout # xs) = input_lines xs"
| "input_lines (_ # xs) = []"

lemma stdin_run_lines:
  "stdin_running s \<Longrightarrow> open_pipe (stdin_pipe s) k \<Longrightarrow> open_pipe q k \<Longrightarrow> apart q (stdin_pipe s) k \<Longrightarrow>
    \<exists>go k'. stdin_run (write_fd q) xs s k = Inr (go, k') \<and> fds k' = fds k \<and>
      pending (stdin_pipe s) k' = pending (stdin_pipe s) k @ concat (map (\<lambda>l. l @ [LF]) (input_lines xs))"
proof (induction xs arbitrary: k)
  case (Cons x xs)
  note op = Cons.prems(2)
  show ?case
  proof (cases x)
    case (Input_line l)
    obtain k1 where k1: "Pipe_write (stdin_pipe s) (l @ [LF]) k = Inr k1" "fds k1 = fds k"
      "pending (stdin_pipe s) k1 = pending (stdin_pipe s) k @ l @ [LF]"
      using Pipe_write_open [OF op, of "l @ [LF]"] by blast
    have "open_pipe (stdin_pipe s) k1" "open_pipe q k1" "apart q (stdin_pipe s) k1"
      using Cons.prems open_pipe_fds [OF k1(2)] apart_fds [OF k1(2)] by simp_all
    from Cons.IH [OF Cons.prems(1) this] obtain go k' where
      "stdin_run (write_fd q) xs s k1 = Inr (go, k')" "fds k' = fds k1"
      "pending (stdin_pipe s) k' = pending (stdin_pipe s) k1 @ concat (map (\<lambda>l. l @ [LF]) (input_lines xs))"
      by blast
    then show ?thesis using Input_line k1 Cons.prems(1) by (simp add: stdin_turn_def)
  next
    case Input_end
    obtain k1 where k1: "Pipe_write q ''1'' k = Inr k1" "fds k1 = fds k"
      "pending (stdin_pipe s) k1 = pending (stdin_pipe s) k"
      using Pipe_write_open [OF Cons.prems(3), of "''1''"] Cons.prems(4) by blast
    then have "sys_write (write_fd q) ''1'' k = Some k1"
      using Cons.prems(3) by (auto simp: Pipe_write_def open_pipe_def split: option.splits if_splits)
    then show ?thesis using Input_end k1 Cons.prems(1) by (auto simp: stdin_turn_def)
  qed (use Cons in \<open>auto simp: stdin_turn_def\<close>)
qed (auto intro: exI [of _ True])

text \<open>
  C36. What the user types reaches the listener complete and in order: after any sequence of
  answers of \<open>select\<close> the pipe holds every line read so far, each with its end, and the
  thread has not failed.
\<close>

theorem stdin_lines_forwarded:
  assumes "stdin_running s" and "open_pipe (stdin_pipe s) k" and "open_pipe q k" and "apart q (stdin_pipe s) k"
  shows "\<exists>go k'. stdin_run (write_fd q) xs s k = Inr (go, k') \<and>
    pending (stdin_pipe s) k' = pending (stdin_pipe s) k @ concat (map (\<lambda>l. l @ [LF]) (input_lines xs))"
  using stdin_run_lines [OF assms] by blast

definition two_pipes :: Kernel where
  "two_pipes = \<lparr>fds = [(3, Read_end 0), (4, Write_end 0), (5, Read_end 1), (6, Write_end 1)],
     bufs = (\<lambda>_. []), next_pipe = 2, nonblock = [], fd_limit = 16\<rparr>"

theorem stdin_lines_forwarded_witness:
  "\<exists>go k'. stdin_run 6 [Select_timeout, Input_line ''hi'', Input_end]
      (new_StdinListener \<lparr>ptype = StdinPipe, read_fd = 3, write_fd = 4\<rparr>) two_pipes = Inr (go, k') \<and>
    pending \<lparr>ptype = StdinPipe, read_fd = 3, write_fd = 4\<rparr> k' = ''hi'' @ [LF]"
proof -
  let ?p = "\<lparr>ptype = StdinPipe, read_fd = 3, write_fd = 4\<rparr>"
  let ?q = "\<lparr>ptype = SignalPipe, read_fd = 5, write_fd = 6\<rparr>"
  have "open_pipe ?p two_pipes" "open_pipe ?q two_pipes" "apart ?q ?p two_pipes" "pending ?p two_pipes = []"
    by (simp_all add: open_pipe_def apart_def two_pipes_def pending_def)
  then show ?thesis
    using stdin_lines_forwarded [of "new_StdinListener ?p" two_pipes ?q "[Select_timeout, Input_line ''hi'', Input_end]"]
    by (auto simp: new_StdinListener_def)
qed

end
