(* ===== verification/Args.thy ===== *)
theory Args
  imports Net
begin

text \<open>
  The class \<open>ArgumentParser\<close> of \<open>arg-parser.h\<close> and \<open>arg-parser.cpp\<close>, with what it uses of the
  C library: \<open>getopt\<close> on its option string, \<open>atoi\<close> and \<open>std::stoi\<close>.
\<close>

type_synonym u8 = "8 word"

record ArgumentParser =
  typeSet :: bool
  ipSet :: bool
  arg_type :: "ProtocolType option"     \<comment> \<open>\<open>None\<close>: not written yet\<close>
  arg_ip :: string
  arg_port :: u16
  arg_timeout :: u16
  arg_retries :: u8
  arg_verbose :: bool

definition initial_args :: ArgumentParser where
  "initial_args = \<lparr>typeSet = False, ipSet = False, arg_type = None, arg_ip = [], arg_port = 4567,
     arg_timeout = 250, arg_retries = 3, arg_verbose = False\<rparr>"

subsection \<open>Numbers in text\<close>

definition isdigit :: "char \<Rightarrow> bool" where
  "isdigit c = in_range 48 57 c"

definition digits_value :: "string \<Rightarrow> int" where
  "digits_value s = foldl (\<lambda>n c. 10 * n + (int (code c) - 48)) 0 s"

text \<open>\<open>strtol\<close> in base ten without its range: the value, if there is a digit at all.\<close>

definition parse_int :: "string \<Rightarrow> int option" where
  "parse_int s =
     (let s = dropWhile isspace s;
          (neg, s) = (case s of c # r \<Rightarrow> if c = CHR ''-'' then (True, r) else if c = CHR ''+'' then (False, r)
                                    else (False, s) | [] \<Rightarrow> (False, []));
          ds = takeWhile isdigit s
      in if ds = [] then None else Some (if neg then - digits_value ds else digits_value ds))"

text \<open>\<open>atoi\<close> clamps to \<open>long\<close>; the narrowing to \<open>int\<close> and further is that of the caller.\<close>

definition atoi :: "string \<Rightarrow> int" where
  "atoi s = (case parse_int s of None \<Rightarrow> 0 | Some n \<Rightarrow> max (- (2 ^ 63)) (min (2 ^ 63 - 1) n))"

text \<open>\<open>invalid_argument\<close> and \<open>out_of_range\<close> are logic errors.\<close>

definition stoi :: "string \<Rightarrow> int result" where
  "stoi s = (case parse_int s of
       None \<Rightarrow> Inl (Logic_error ''stoi'')
     | Some n \<Rightarrow> if - (2 ^ 31) \<le> n \<and> n < 2 ^ 31 then Inr n else Inl (Logic_error ''stoi''))"

subsection \<open>Options\<close>

text \<open>
  What successive calls of \<open>getopt\<close> with \<open>t:s:p:d:r:hv\<close> return, with \<open>optarg\<close>. The first
  argument is what is left of an option cluster. Words that are no options are passed over.
\<close>

definition takes_argument :: "char \<Rightarrow> bool" where
  "takes_argument c \<longleftrightarrow> c \<in> {CHR ''t'', CHR ''s'', CHR ''p'', CHR ''d'', CHR ''r''}"

fun getopt :: "string \<Rightarrow> string list \<Rightarrow> (char \<times> string) list" where
  "getopt [] [] = []"
| "getopt [] (arg # argv) =
     (if arg = ''--'' then []
      else if length arg > 1 \<and> hd arg = CHR ''-'' then getopt (tl arg) argv
      else getopt [] argv)"
| "getopt (c # cluster) argv =
     (if takes_argument c then
        (if cluster \<noteq> [] then (c, cluster) # getopt [] argv
         else case argv of [] \<Rightarrow> [(CHR ''?'', [])] | arg # argv \<Rightarrow> (c, arg) # getopt [] argv)
      else (if c = CHR ''h'' \<or> c = CHR ''v'' then c else CHR ''?'', []) # getopt cluster argv)"

definition usage :: "string \<Rightarrow> fault" where
  "usage argv0 = Exit 1 [Stdout (''Usage: '' @ argv0 @
     '' -t <tcp|udp> -s <server_ip> -p <port> -d <display_name> -r <message>'' @ [LF])]"

text \<open>The body of the loop of \<open>parse\<close>, on one option.\<close>

definition parse_option :: "string \<Rightarrow> char \<times> string \<Rightarrow> ArgumentParser \<Rightarrow> ArgumentParser result" where
  "parse_option argv0 x a = (case x of (opt, optarg) \<Rightarrow>
     if opt = CHR ''t'' then
       (if optarg = ''tcp'' then Inr (a\<lparr>arg_type := Some TCP, typeSet := True\<rparr>)
        else if optarg = ''udp'' then Inr (a\<lparr>arg_type := Some UDP, typeSet := True\<rparr>)
        else Inl (usage argv0))
     else if opt = CHR ''s'' then Inr (a\<lparr>arg_ip := optarg, ipSet := True\<rparr>)
     else if opt = CHR ''p'' then rbind (stoi optarg) (\<lambda>n. Inr (a\<lparr>arg_port := word_of_int n\<rparr>))
     else if opt = CHR ''d'' then Inr (a\<lparr>arg_timeout := word_of_int (atoi optarg)\<rparr>)
     else if opt = CHR ''r'' then Inr (a\<lparr>arg_retries := word_of_int (atoi optarg)\<rparr>)
     else if opt = CHR ''h'' then Inl (usage argv0)
     else if opt = CHR ''v'' then Inr (a\<lparr>arg_verbose := True\<rparr>)
     else Inl (usage argv0))"

definition parse :: "string \<Rightarrow> string list \<Rightarrow> ArgumentParser \<Rightarrow> ArgumentParser result" where
  "parse argv0 argv a =
     rbind (rfold (parse_option argv0) (getopt [] argv) a) (\<lambda>a.
     if \<not> typeSet a \<or> \<not> ipSet a then Inl (usage argv0) else Inr a)"

text \<open>The constructor parses.\<close>

definition new_ArgumentParser :: "string \<Rightarrow> string list \<Rightarrow> ArgumentParser result" where
  "new_ArgumentParser argv0 argv = parse argv0 argv initial_args"

definition print_args :: "ArgumentParser \<Rightarrow> console list" where
  "print_args a =
     [Stdout (''Protocol: '' @ (if arg_type a = Some TCP then ''TCP'' else ''UDP'') @ [LF]),
      Stdout (''Server IP: '' @ arg_ip a @ [LF]),
      Stdout (''Port: '' @ show_int (uint (arg_port a)) @ [LF]),
      Stdout (''Timeout: '' @ show_int (uint (arg_timeout a)) @ [LF]),
      Stdout (''Retries: '' @ [char_of (unat (arg_retries a))] @ [LF])]"

subsection \<open>Decimal text is read back\<close>

lemma show_nat_digits: "list_all isdigit (show_nat n) \<and> show_nat n \<noteq> []"
proof (induction n rule: show_nat.induct)
  case (1 n)
  show ?case
  proof (cases "n < 10")
    case True
    then show ?thesis by (simp add: show_nat.simps [of n] isdigit_def in_range_def char_simps)
  next
    case False
    then show ?thesis using 1 by (simp add: show_nat.simps [of n] isdigit_def in_range_def char_simps)
  qed
qed

lemma digits_value_snoc: "digits_value (s @ [c]) = 10 * digits_value s + (int (code c) - 48)"
  by (simp add: digits_value_def)

lemma digits_value_show_nat: "digits_value (show_nat n) = int n"
proof (induction n rule: show_nat.induct)
  case (1 n)
  show ?case
  proof (cases "n < 10")
    case True
    then show ?thesis using digits_value_snoc [of "[]"]
      by (simp add: show_nat.simps [of n] digits_value_def char_simps)
  next
    case False
    have "10 * int (n div 10) + int (n mod 10) = int n"
      by (metis mult_div_mod_eq of_nat_add of_nat_mult of_nat_numeral)
    with False show ?thesis using 1 by (simp add: show_nat.simps [of n] digits_value_snoc char_simps)
  qed
qed

lemma isdigit_plain: "isdigit c \<Longrightarrow> \<not> isspace c \<and> c \<noteq> CHR ''-'' \<and> c \<noteq> CHR ''+''"
  by (auto simp: isdigit_def in_range_def isspace_def code_def)

lemma parse_int_show_nat: "parse_int (show_nat n) = Some (int n)"
proof -
  obtain c s where c: "show_nat n = c # s" using show_nat_digits [of n] by (cases "show_nat n") auto
  have d: "isdigit c" "list_all isdigit s" using show_nat_digits [of n] by (simp_all add: c)
  have "takeWhile isdigit (c # s) = c # s" using d by (simp add: takeWhile_eq_all_conv list_all_iff)
  then show ?thesis
    using isdigit_plain [OF d(1)] digits_value_show_nat [of n] by (simp add: parse_int_def c Let_def)
qed

subsection \<open>Properties\<close>

text \<open>
  A command line of options in any order and number, each a word of its own that is followed,
  except for \<open>-v\<close> and \<open>-h\<close>, by the word of its value.
\<close>

definition option_words :: "(char \<times> string) list \<Rightarrow> string list" where
  "option_words opts = concat (map (\<lambda>(c, v).
     [CHR ''-'', c] # (if c \<in> {CHR ''v'', CHR ''h''} then [] else [v])) opts)"

definition acceptable :: "char \<times> string \<Rightarrow> bool" where
  "acceptable x = (case x of (c, v) \<Rightarrow> c \<noteq> CHR ''h'' \<and> (c = CHR ''t'' \<longrightarrow> v = ''tcp'' \<or> v = ''udp'') \<and>
     (c = CHR ''p'' \<longrightarrow> (\<exists>n. stoi v = Inr n)))"

text \<open>The settings that options \<open>m\<close> (the value of each that was given) make of earlier ones.\<close>

definition settings :: "(char \<rightharpoonup> string) \<Rightarrow> ArgumentParser \<Rightarrow> ArgumentParser" where
  "settings m a = \<lparr>typeSet = typeSet a \<or> m CHR ''t'' \<noteq> None, ipSet = ipSet a \<or> m CHR ''s'' \<noteq> None,
     arg_type = (case m CHR ''t'' of None \<Rightarrow> arg_type a | Some v \<Rightarrow> Some (if v = ''tcp'' then TCP else UDP)),
     arg_ip = (case m CHR ''s'' of None \<Rightarrow> arg_ip a | Some v \<Rightarrow> v),
     arg_port = (case m CHR ''p'' of None \<Rightarrow> arg_port a | Some v \<Rightarrow> word_of_int (projr (stoi v))),
     arg_timeout = (case m CHR ''d'' of None \<Rightarrow> arg_timeout a | Some v \<Rightarrow> word_of_int (atoi v)),
     arg_retries = (case m CHR ''r'' of None \<Rightarrow> arg_retries a | Some v \<Rightarrow> word_of_int (atoi v)),
     arg_verbose = (arg_verbose a \<or> m CHR ''v'' \<noteq> None)\<rparr>"

lemma settings_empty [simp]: "settings Map.empty a = a"
  by (simp add: settings_def)

lemma settings_add: "settings m2 (settings m1 a) = settings (m1 ++ m2) a"
  by (simp add: settings_def map_add_def split: option.split)

lemma parse_option_settings:
  assumes "c \<in> set ''tspdrvh''"
  shows "parse_option argv0 (c, v) a =
    (if acceptable (c, v) then Inr (settings [c \<mapsto> v] a)
     else Inl (if c = CHR ''p'' then Logic_error ''stoi'' else usage argv0))"
  using assms by (auto simp: parse_option_def acceptable_def settings_def stoi_def split: option.split)

lemma getopt_flag: "c \<in> {CHR ''v'', CHR ''h''} \<Longrightarrow> getopt [] ([CHR ''-'', c] # ws) = (c, []) # getopt [] ws"
  by (auto simp: takes_argument_def)

lemma getopt_option:
  "takes_argument c \<Longrightarrow> getopt [] ([CHR ''-'', c] # v # ws) = (c, v) # getopt [] ws"
  by (auto simp: takes_argument_def)

lemma option_letters: "c \<in> set ''tspdrvh'' \<Longrightarrow> c \<notin> {CHR ''v'', CHR ''h''} \<Longrightarrow> takes_argument c"
  by (auto simp: takes_argument_def)

lemma getopt_words:
  "list_all (\<lambda>x. fst x \<in> set ''tspdrvh'') opts \<Longrightarrow> getopt [] (option_words opts) =
    map (\<lambda>(c, v). (c, if c \<in> {CHR ''v'', CHR ''h''} then [] else v)) opts"
proof (induction opts)
  case (Cons x opts)
  obtain c v where x: "x = (c, v)" by fastforce
  have "c \<in> set ''tspdrvh''" using Cons.prems x by (simp only: list.pred_inject(2) fst_conv)
  moreover have words: "option_words ((c, v) # opts) =
      [CHR ''-'', c] # (if c \<in> {CHR ''v'', CHR ''h''} then [] else [v]) @ option_words opts"
    unfolding option_words_def by simp
  moreover have ih: "getopt [] (option_words opts) = map (\<lambda>(c, v). (c, if c \<in> {CHR ''v'', CHR ''h''} then [] else v)) opts"
    using Cons by (simp only: list.pred_inject(2))
  ultimately show ?case
    unfolding x using getopt_flag [of c] getopt_option [of c v] option_letters [of c]
    by (cases "c \<in> {CHR ''v'', CHR ''h''}")
      (simp_all only: if_True if_False append_Nil append_Cons list.map prod.case not_False_eq_True)
qed (simp add: option_words_def)

lemma parse_option_flag:
  assumes "c \<in> {CHR ''v'', CHR ''h''}"
  shows "parse_option argv0 (c, []) a = parse_option argv0 (c, v) a"
proof -
  from assms consider "c = CHR ''v''" | "c = CHR ''h''" by blast
  then show ?thesis unfolding parse_option_def prod.case by cases simp_all
qed

lemma parse_options:
  "list_all (\<lambda>x. fst x \<in> set ''tspdrvh'') opts \<Longrightarrow>
    rfold (parse_option argv0) (getopt [] (option_words opts)) a =
    (case find (\<lambda>x. \<not> acceptable x) opts of
       Some (c, _) \<Rightarrow> Inl (if c = CHR ''p'' then Logic_error ''stoi'' else usage argv0)
     | None \<Rightarrow> Inr (settings (map_of (rev opts)) a))"
proof (induction opts arbitrary: a)
  case (Cons x opts)
  obtain c v where x: "x = (c, v)" by fastforce
  have c: "c \<in> set ''tspdrvh''" using Cons.prems x by (simp only: list.pred_inject(2) fst_conv)
  have v: "parse_option argv0 (c, if c \<in> {CHR ''v'', CHR ''h''} then [] else v) a = parse_option argv0 (c, v) a"
    using parse_option_flag [of c argv0 a v] by (cases "c \<in> {CHR ''v'', CHR ''h''}") simp_all
  have all: "list_all (\<lambda>x. fst x \<in> set ''tspdrvh'') opts" using Cons.prems by (simp only: list.pred_inject(2))
  have g: "getopt [] (option_words (x # opts)) =
      (c, if c \<in> {CHR ''v'', CHR ''h''} then [] else v) # getopt [] (option_words opts)"
    unfolding getopt_words [OF Cons.prems] getopt_words [OF all] by (simp add: x)
  show ?case
    unfolding g rfold.simps v unfolding parse_option_settings [OF c]
    by (cases "acceptable (c, v)") (simp_all only: if_True if_False rbind_Inr rbind_Inl Cons.IH [OF all] x
      find.simps rev.simps map_of_append settings_add option.case not_True_eq_False not_False_eq_True prod.case
      map_of.simps fst_conv snd_conv)
qed (simp add: option_words_def)

text \<open>
  C40. Options of the command line, each a word of its own followed by its value, in any order
  and number. When every one is acceptable and a protocol and a server are given, each
  setting is the value of the last option of its letter, or its default (port 4567, timeout
  250, 3 retries, not verbose); numbers are taken modulo the width of their fields. The
  first option that is not acceptable ends the program: a port that \<open>stoi\<close> refuses, being no
  number or out of the range of \<open>int\<close>, with an exception that nothing catches, another
  protocol or \<open>-h\<close> with the usage text and status 1, and so does a missing protocol or server.
\<close>

theorem options_parsed:
  assumes "list_all (\<lambda>x. fst x \<in> set ''tspdrvh'') opts"
  shows "new_ArgumentParser argv0 (option_words opts) =
    (case find (\<lambda>x. \<not> acceptable x) opts of
       Some (c, _) \<Rightarrow> Inl (if c = CHR ''p'' then Logic_error ''stoi'' else usage argv0)
     | None \<Rightarrow>
       let given = map_of (rev opts) in
       if given CHR ''t'' = None \<or> given CHR ''s'' = None then Inl (usage argv0)
       else Inr \<lparr>typeSet = True, ipSet = True,
         arg_type = Some (if given CHR ''t'' = Some ''tcp'' then TCP else UDP),
         arg_ip = the (given CHR ''s''),
         arg_port = (case given CHR ''p'' of None \<Rightarrow> 4567 | Some v \<Rightarrow> word_of_int (projr (stoi v))),
         arg_timeout = (case given CHR ''d'' of None \<Rightarrow> 250 | Some v \<Rightarrow> word_of_int (atoi v)),
         arg_retries = (case given CHR ''r'' of None \<Rightarrow> 3 | Some v \<Rightarrow> word_of_int (atoi v)),
         arg_verbose = (given CHR ''v'' \<noteq> None)\<rparr>)"
proof -
  have parsed: "parse argv0 (option_words opts) initial_args =
      rbind (case find (\<lambda>x. \<not> acceptable x) opts of
         Some (c, _) \<Rightarrow> Inl (if c = CHR ''p'' then Logic_error ''stoi'' else usage argv0)
       | None \<Rightarrow> Inr (settings (map_of (rev opts)) initial_args))
       (\<lambda>a. if \<not> typeSet a \<or> \<not> ipSet a then Inl (usage argv0) else Inr a)"
    unfolding parse_def parse_options [OF assms] ..
  show ?thesis
  proof (cases "find (\<lambda>x. \<not> acceptable x) opts")
    case None
    with parsed show ?thesis
      by (cases "map_of (rev opts) CHR ''t''"; cases "map_of (rev opts) CHR ''s''")
        (simp_all add: new_ArgumentParser_def settings_def initial_args_def Let_def cong: option.case_cong)
  next
    case (Some x)
    with parsed show ?thesis by (simp add: new_ArgumentParser_def case_prod_beta)
  qed
qed

theorem options_parsed_witness:
  "\<exists>a. new_ArgumentParser ''chat'' [''-s'', ''one'', ''-v'', ''-p'', show_nat 70000, ''-t'', ''udp'', ''-s'', ''two''] = Inr a \<and>
    arg_port a = 4464 \<and> arg_ip a = ''two'' \<and> arg_timeout a = 250 \<and> arg_verbose a"
proof -
  let ?opts = "[(CHR ''s'', ''one''), (CHR ''v'', []), (CHR ''p'', show_nat 70000), (CHR ''t'', ''udp''), (CHR ''s'', ''two'')]"
  have "stoi (show_nat 70000) = Inr 70000" by (simp add: stoi_def parse_int_show_nat)
  then show ?thesis
    using options_parsed [of ?opts "''chat''"] by (simp add: option_words_def acceptable_def)
qed

text \<open>Decimal text is what the two conversions take.\<close>

theorem decimal_option:
  "atoi (show_nat n) = min (2 ^ 63 - 1) (int n)" and
  "stoi (show_nat n) = (if int n < 2 ^ 31 then Inr (int n) else Inl (Logic_error ''stoi''))"
  by (simp_all add: atoi_def stoi_def parse_int_show_nat)

text \<open>
  Parsing returns only with a protocol and a server: every command line without \<open>-t\<close> or
  without \<open>-s\<close>, with an unknown option or with another protocol ends in the usage text and
  status 1 or in the exception of \<open>stoi\<close>.
\<close>

theorem parse_complete:
  "case new_ArgumentParser argv0 argv of
     Inr a \<Rightarrow> ipSet a \<and> (\<exists>t. arg_type a = Some t)
   | Inl e \<Rightarrow> e = usage argv0 \<or> e = Logic_error ''stoi''"
proof -
  let ?ok = "\<lambda>a. typeSet a \<longrightarrow> arg_type a \<noteq> None"
  have step: "?ok a \<Longrightarrow> (case parse_option argv0 x a of Inr a \<Rightarrow> ?ok a |
      Inl e \<Rightarrow> e = usage argv0 \<or> e = Logic_error ''stoi'')" for x a
    by (auto simp: parse_option_def stoi_def rbind_def split: prod.splits option.splits sum.splits if_splits)
  have "?ok a \<Longrightarrow> (case rfold (parse_option argv0) xs a of Inr a \<Rightarrow> ?ok a |
      Inl e \<Rightarrow> e = usage argv0 \<or> e = Logic_error ''stoi'')" for xs a
  proof (induction xs arbitrary: a)
    case (Cons x xs)
    then show ?case using step [OF Cons.prems, of x]
      by (cases "parse_option argv0 x a") auto
  qed simp
  from this [of initial_args "getopt [] argv"] show ?thesis
    by (auto simp: new_ArgumentParser_def parse_def initial_args_def rbind_def split: sum.splits)
qed

end
