(* ===== verification/System.thy ===== *)
theory System
  imports Fsm Turns Stdin_Listener Args
begin

text \<open>
  \<open>runMain\<close> of \<open>main.cpp\<close>: the set-up of the program and the four flows of control that run
  after it, the state machine in the main thread, the event loop of the listener, the thread
  that reads standard input, and the signal handler. They interleave at the granularity of
  one turn of the state machine and one event of the listener: the queues are behind a
  mutex and the pipes are atomic.
\<close>

record System =
  machine :: FSM
  world :: World
  todo :: "(int \<times> Incoming \<times> int) list"     \<comment> \<open>events of the current turn not yet handled\<close>
  in_pipe :: Pipe
  send_pipe :: Pipe
  signal_pipe :: Pipe

subsection \<open>Set-up\<close>

definition sys_socket :: "Kernel \<Rightarrow> int \<times> Kernel" where
  "sys_socket k = (case free_fds k of [] \<Rightarrow> (-1, k) | fd # _ \<Rightarrow> (fd, k\<lparr>fds := (fd, Other) # fds k\<rparr>))"

text \<open>
  The connection, the three pipes, the mailbox and the listener; its thread starts by
  registering its descriptors. \<open>connected\<close> is what \<open>connect\<close> answers.
\<close>

definition set_up :: "(string \<Rightarrow> host_addr option) \<Rightarrow> int \<Rightarrow> ProtocolType \<Rightarrow> ArgumentParser \<Rightarrow> Kernel \<Rightarrow> System result" where
  "set_up g connected type args k =
     (let (sock, k) = sys_socket k in
      rbind (conn_openConnection g sock connected
        (new_NetworkConnection type (arg_ip args) (arg_port args) (arg_timeout args) (ucast (arg_retries args))))
        (\<lambda>(ok, c).
      if \<not> ok then Inl (Runtime_error ''Failed to open connection'')
      else
        rbind (getFdsocket c) (\<lambda>sockfd.
        rbind (new_Pipe StdinPipe k) (\<lambda>(myPipe, k).
        rbind (new_Pipe ToSendPipe k) (\<lambda>(toSendPipe, k).
        rbind (new_Pipe SignalPipe k) (\<lambda>(signalPipe, k).
        rbind (guarded (registerFds (main_listener (getReadFd myPipe) sockfd (getReadFd toSendPipe)
          (getReadFd signalPipe) type))) (\<lambda>l.
        Inr \<lparr>machine = new_FSM START,
          world = \<lparr>lst = l, mbox = new_MailBox type (Some toSendPipe), conn = c, kernel = k, con = []\<rparr>,
          todo = [], in_pipe = myPipe, send_pipe = toSendPipe, signal_pipe = signalPipe\<rparr>)))))))"

text \<open>
  The two handlers around it: \<open>main\<close> prints a \<open>runtime_error\<close> and returns -1, which is the
  status 255.
\<close>

definition main_guarded :: "'a result \<Rightarrow> 'a result" where
  "main_guarded r = (case r of
       Inl (Runtime_error what) \<Rightarrow> Inl (Exit 255 [Stderr (''ERR: '' @ what @ [LF])])
     | _ \<Rightarrow> r)"

definition runMain_setup :: "(string \<Rightarrow> host_addr option) \<Rightarrow> int \<Rightarrow> string \<Rightarrow> string list \<Rightarrow> Kernel \<Rightarrow> System result" where
  "runMain_setup g connected argv0 argv k =
     main_guarded (rbind (new_ArgumentParser argv0 argv) (\<lambda>args.
       case arg_type args of
         None \<Rightarrow> Inl (Undefined Uninitialised)
       | Some type \<Rightarrow> set_up g connected type args k))"

subsection \<open>Steps\<close>

text \<open>
  A step of one of the flows of control that returns. A step that ends in a fault has no
  successor: a \<open>runtime_error\<close> in the listener is an \<open>exit(1)\<close> of the whole process (\<open>guarded\<close>),
  undefined behaviour says nothing of what follows, and a read that blocks is tried again later.
  The join in \<open>Listener::stop\<close> is \<open>joined\<close> below; the join of the thread on standard input, which only
  follows it, is the loop of \<open>Stdin_Listener\<close>.
\<close>

definition set_world :: "World \<Rightarrow> System \<Rightarrow> System" where
  "set_world w s = s\<lparr>world := w\<rparr>"

inductive sys_step :: "(string \<Rightarrow> host_addr option) \<Rightarrow> System \<Rightarrow> System \<Rightarrow> bool"
  for g :: "string \<Rightarrow> host_addr option" where
  fsm_turn: "state (machine s) \<noteq> END \<Longrightarrow>
    fsm_iteration (machine s) (mbox (world s)) (kernel (world s)) = Inr (out, m, mb, k) \<Longrightarrow>
    sys_step g s (s\<lparr>machine := m, world := print out ((world s)\<lparr>mbox := mb, kernel := k\<rparr>)\<rparr>)"
| poll: "todo s = [] \<Longrightarrow> loop_guard (lst (world s)) \<Longrightarrow> possible e (world s) \<Longrightarrow>
    begin_turn e (world s) = Inr (t, w) \<Longrightarrow> wake e = Ready events \<Longrightarrow>
    sys_step g s (s\<lparr>world := w, todo := events\<rparr>)"
| idle: "todo s = [] \<Longrightarrow> loop_guard (lst (world s)) \<Longrightarrow> possible e (world s) \<Longrightarrow>
    (\<forall>events. wake e \<noteq> Ready events) \<Longrightarrow> listener_turn g e (world s) = Inr w \<Longrightarrow>
    sys_step g s (set_world w s)"
| event: "todo s = x # rest \<Longrightarrow> on_event g x (world s) = Inr w \<Longrightarrow>
    sys_step g s (s\<lparr>world := w, todo := rest\<rparr>)"
| typed_line: "Pipe_write (in_pipe s) (line @ [LF]) (kernel (world s)) = Inr k \<Longrightarrow>
    sys_step g s (set_world ((world s)\<lparr>kernel := k\<rparr>) s)"
| signal: "handleSignal (write_fd (signal_pipe s)) (kernel (world s)) = Inr k \<Longrightarrow>
    sys_step g s (set_world ((world s)\<lparr>kernel := k\<rparr>) s)"
| stop: "state (machine s) = END \<Longrightarrow>
    sys_step g s (set_world ((world s)\<lparr>lst := fst (Listener_stop (lst (world s)))\<rparr>) s)"

inductive_cases sys_stepE: "sys_step g s s'"

text \<open>The program has ended when the main thread left the machine and the listener its loop,
  so that \<open>Listener::stop\<close> could join the thread.\<close>

definition joined :: "System \<Rightarrow> bool" where
  "joined s \<longleftrightarrow> state (machine s) = END \<and> todo s = [] \<and> \<not> loop_guard (lst (world s))"

text \<open>
  What \<open>runMain\<close> then closes, call by call: the descriptors of the listener, the socket, and
  in the destructors the descriptors of the listener again, those of the pipes and the connection.
\<close>

definition pipe_closes :: "Pipe \<Rightarrow> int list" where
  "pipe_closes p = (if read_fd p \<noteq> -1 then [read_fd p] else []) @ (if write_fd p \<noteq> -1 then [write_fd p] else [])"

definition tear_down :: "System \<Rightarrow> int list result" where
  "tear_down s =
     (let (l, stopped) = Listener_stop (lst (world s)) in
      rbind (conn_closeConnection (conn (world s))) (\<lambda>(_, closed, c).
      rbind (destroy_NetworkConnection c) (\<lambda>destroyed.
      Inr (stopped @ closed @ destroy_Listener l @ pipe_closes (signal_pipe s) @ pipe_closes (send_pipe s) @
           pipe_closes (in_pipe s) @ destroyed))))"

subsection \<open>The notification pipe and the outgoing queue\<close>

text \<open>Descriptors and pipe numbers of a kernel.\<close>

definition sane_kernel :: "Kernel \<Rightarrow> bool" where
  "sane_kernel k \<longleftrightarrow> set (nonblock k) \<subseteq> fst ` set (fds k) \<and>
     (\<forall>n. Read_end n \<in> snd ` set (fds k) \<or> Write_end n \<in> snd ` set (fds k) \<longrightarrow> n < next_pipe k)"

lemma new_Pipe_shape:
  assumes "new_Pipe t k = Inr (p, k')"
  shows "fds k' = (read_fd p, Read_end (next_pipe k)) # (write_fd p, Write_end (next_pipe k)) # fds k"
    and "nonblock k' = nonblock k" and "next_pipe k' = Suc (next_pipe k)"
    and "read_fd p \<notin> fst ` set (fds k)" and "write_fd p \<notin> fst ` set (fds k)"
    and "read_fd p \<noteq> write_fd p" and "0 \<le> read_fd p" and "0 \<le> write_fd p"
proof -
  obtain rest where f: "free_fds k = read_fd p # write_fd p # rest"
    and k': "k' = k\<lparr>fds := (read_fd p, Read_end (next_pipe k)) # (write_fd p, Write_end (next_pipe k)) # fds k,
      bufs := (bufs k)(next_pipe k := []), next_pipe := Suc (next_pipe k)\<rparr>"
    using assms by (auto simp: new_Pipe_def sys_pipe_def split: option.splits list.splits)
  show "fds k' = (read_fd p, Read_end (next_pipe k)) # (write_fd p, Write_end (next_pipe k)) # fds k"
    "nonblock k' = nonblock k" "next_pipe k' = Suc (next_pipe k)" by (simp_all add: k')
  show "read_fd p \<notin> fst ` set (fds k)" "write_fd p \<notin> fst ` set (fds k)" "read_fd p \<noteq> write_fd p"
    "0 \<le> read_fd p" "0 \<le> write_fd p" using free_fds_Cons [OF f] by simp_all
qed

lemma new_Pipe_sane: "new_Pipe t k = Inr (p, k') \<Longrightarrow> sane_kernel k \<Longrightarrow> sane_kernel k'"
  by (auto simp: sane_kernel_def new_Pipe_shape less_Suc_eq)

lemma new_Pipe_other:
  assumes "new_Pipe t k = Inr (p, k')" and "sane_kernel k" and "open_pipe q k"
  shows "open_pipe q k' \<and> apart q p k' \<and> read_fd q \<noteq> read_fd p \<and>
    map_of (fds k') (read_fd q) = map_of (fds k) (read_fd q)"
proof -
  note sh = new_Pipe_shape [OF assms(1)]
  from assms(3) obtain n where n: "map_of (fds k) (read_fd q) = Some (Read_end n)"
    "map_of (fds k) (write_fd q) = Some (Write_end n)" "Read_end n \<in> snd ` set (fds k)"
    by (rule open_pipe_ends)
  have "n < next_pipe k" using assms(2) n(3) by (auto simp: sane_kernel_def)
  moreover have "read_fd q \<in> fst ` set (fds k)" "write_fd q \<in> fst ` set (fds k)"
    using n by (metis map_of_eq_None_iff option.distinct(1))+
  moreover from this have "read_fd q \<noteq> read_fd p" "read_fd q \<noteq> write_fd p" "write_fd q \<noteq> read_fd p"
    "write_fd q \<noteq> write_fd p" using sh(4,5) by metis+
  ultimately show ?thesis
    using n sh(1,6) assms(3) by (simp add: open_pipe_def apart_def)
qed

text \<open>Reading a descriptor other than the read end of \<open>p\<close> leaves \<open>p\<close> alone.\<close>

lemma sys_read_frame:
  assumes "sys_read fd n k = (r, k')"
  shows "fds k' = fds k \<and> nonblock k' = nonblock k \<and>
    (map_of (fds k) fd \<noteq> map_of (fds k) (read_fd p) \<longrightarrow> pending p k' = pending p k)"
  using assms
  by (auto simp: sys_read_def pending_def split: option.splits descriptor.splits if_splits)

text \<open>The plumbing of the program: its three pipes, and which descriptor is which.\<close>

definition plumbed :: "System \<Rightarrow> bool" where
  "plumbed s \<longleftrightarrow> (let k = kernel (world s) in
     open_pipe (in_pipe s) k \<and> open_pipe (send_pipe s) k \<and> open_pipe (signal_pipe s) k \<and>
     apart (in_pipe s) (send_pipe s) k \<and> apart (signal_pipe s) (send_pipe s) k \<and>
     read_fd (send_pipe s) \<notin> set (nonblock k)) \<and>
     (\<forall>fd. map_of (fdMap (lst (world s))) fd = Some StdinPipe \<longrightarrow> fd = read_fd (in_pipe s)) \<and>
     (\<forall>fd. map_of (fdMap (lst (world s))) fd = Some SignalPipe \<longrightarrow> fd = read_fd (signal_pipe s)) \<and>
     map_of (fdMap (lst (world s))) (read_fd (send_pipe s)) = Some ToSendPipe"

definition notified :: "System \<Rightarrow> bool" where
  "notified s \<longleftrightarrow> plumbed s \<and> wired (send_pipe s) (world s) \<and> conn (world s) \<noteq> None \<and>
     length (pending (send_pipe s) (kernel (world s))) = length (outgoingMails (mbox (world s)))"

text \<open>A step that keeps the descriptors and the roles keeps the plumbing.\<close>

lemma plumbed_same:
  "plumbed s \<Longrightarrow> in_pipe s' = in_pipe s \<Longrightarrow> send_pipe s' = send_pipe s \<Longrightarrow> signal_pipe s' = signal_pipe s \<Longrightarrow>
    fds (kernel (world s')) = fds (kernel (world s)) \<Longrightarrow>
    nonblock (kernel (world s')) = nonblock (kernel (world s)) \<Longrightarrow>
    fdMap (lst (world s')) = fdMap (lst (world s)) \<Longrightarrow> plumbed s'"
  by (simp add: plumbed_def Let_def open_pipe_def apart_def)

text \<open>What an event does to the descriptors: at most one read of its own descriptor.\<close>

lemma clear_pipe_read:
  "clear_pipe name fd w = Inr (ok, w') \<Longrightarrow> \<exists>r k. sys_read fd 1 (kernel w) = (r, k) \<and> w' = w\<lparr>kernel := k\<rparr>"
  by (auto simp: clear_pipe_def Let_def split: prod.splits ReadResult.splits if_splits)

lemma take_line_kernel: "take_line l w = Inr w' \<Longrightarrow> kernel w' = kernel w"
  by (auto simp: take_line_def rbind_eq_Inr split: if_splits)

lemma scan_lines_kernel:
  assumes "scan_lines [] buf w = Inr w'"
  shows "kernel w' = kernel w"
proof -
  obtain ls rest where "buf = concat (map (\<lambda>l. l @ [LF]) ls) @ rest" "list_all (\<lambda>l. LF \<notin> set l) ls"
    "LF \<notin> set rest" using ex_lines [of buf] by blast
  then have "rfold take_line (filter (\<lambda>l. l \<noteq> []) ls) w = Inr w'"
    using assms scan_lines_split by simp
  then show ?thesis by (rule rfold_inv) (auto dest: take_line_kernel)
qed

lemma listenStdin_read:
  assumes "listenStdin fd w = Inr (b, w')"
  shows "\<exists>r. sys_read fd 1023 (kernel w) = (r, kernel w')"
proof -
  obtain r k where r: "sys_read fd 1023 (kernel w) = (r, k)" by fastforce
  with assms have "kernel w' = k"
    by (auto simp: listenStdin_def rbind_eq_Inr Let_def dest!: scan_lines_kernel
        split: ReadResult.splits if_splits)
  with r show ?thesis by simp
qed

lemma udp_incoming_kernel: "udp_incoming n m w = Inr w' \<Longrightarrow> kernel w' = kernel w"
proof (cases "mtype m")
  case (Some t)
  assume r: "udp_incoming n m w = Inr w'"
  have "t = CONFIRM \<Longrightarrow> \<exists>ref. mdata m = ConfirmMessage ref"
    using r Some by (cases "mdata m") (auto simp: udp_incoming_def rbind_eq_Inr)
  then show ?thesis
    using r Some by (cases t) (auto simp: udp_incoming_def rbind_eq_Inr accept_and_confirm_def
      split: if_splits dest!: send_mail_sel)
qed (simp add: udp_incoming_def rbind_eq_Inr)

lemma listenSocket_kernel:
  assumes "listenSocket g inc n w = Inr (b, w')"
  shows "kernel w' = kernel w"
  using assms
proof (cases rule: listenSocket_cases)
  case (1 out ok buffer c w1 m)
  then show ?thesis using udp_incoming_kernel [of n m w1 w'] by auto
qed

lemma listenSignal_read:
  assumes "listenSignal fd w = Inr (b, w')"
  shows "\<exists>r. sys_read fd 1 (kernel w) = (r, kernel w')"
proof -
  from assms obtain ok w1 where c: "clear_pipe ''signal'' fd w = Inr (ok, w1)" "kernel w' = kernel w1"
    by (auto simp: listenSignal_def rbind_eq_Inr Let_def split: if_splits)
  show ?thesis using clear_pipe_read [OF c(1)] c(2) by auto
qed

lemma send_mail_Some:
  assumes "send_mail n m w = Inr w'" and "conn w \<noteq> None"
  shows "conn w' \<noteq> None"
  using assms by (auto simp: send_mail_def sendData_def rbind_eq_Inr split: option.splits)

text \<open>The connection stays.\<close>

lemma udp_incoming_conn:
  assumes "udp_incoming n m w = Inr w'" and "conn w \<noteq> None"
  shows "conn w' \<noteq> None"
proof (cases "mtype m")
  case (Some t)
  have "t = CONFIRM \<Longrightarrow> \<exists>ref. mdata m = ConfirmMessage ref"
    using assms Some by (cases "mdata m") (auto simp: udp_incoming_def rbind_eq_Inr)
  then show ?thesis
    using assms Some send_mail_Some [of n _ w w']
    by (cases t) (auto simp: udp_incoming_def rbind_eq_Inr accept_and_confirm_def
      split: if_splits dest!: send_mail_Some)
qed (use assms in \<open>simp add: udp_incoming_def rbind_eq_Inr\<close>)

lemma receiveData_Some:
  "receiveData g inc buffer (Some c) = Inr (out, ok, buffer', conn') \<Longrightarrow> conn' \<noteq> None"
  by (auto simp: receiveData_def rbind_eq_Inr split: if_splits)

lemma send_next_conn: "send_next n w = Inr w' \<Longrightarrow> conn w \<noteq> None \<Longrightarrow> conn w' \<noteq> None"
  by (auto simp: send_next_def rbind_eq_Inr Let_def split: option.splits dest!: send_mail_Some)

lemma send_next_kernel: "send_next n w = Inr w' \<Longrightarrow> kernel w' = kernel w"
  by (auto simp: send_next_def rbind_eq_Inr Let_def split: option.splits dest!: send_mail_sel)

lemma listenSignal_conn:
  assumes "listenSignal fd w = Inr (b, w')"
  shows "conn w' = conn w"
proof -
  from assms obtain ok w1 where c: "clear_pipe ''signal'' fd w = Inr (ok, w1)" "conn w' = conn w1"
    by (auto simp: listenSignal_def rbind_eq_Inr Let_def split: if_splits)
  show ?thesis using clear_pipe_read [OF c(1)] c(2) by auto
qed

lemma on_event_conn:
  assumes "on_event g (fd, inc, n) w = Inr w'" and "conn w \<noteq> None"
  shows "conn w' \<noteq> None"
proof (cases "map_of (fdMap (lst w)) fd")
  case None
  then show ?thesis using assms by (simp add: on_event_def)
next
  case (Some t)
  note on = assms(1) [unfolded on_event_def prod.case Some option.case]
  show ?thesis
  proof (cases t)
    case StdinPipe
    then have "listenStdin fd w = Inr (True, w')"
      using on by (auto simp: checked_def rbind_eq_Inr split: if_splits)
    then show ?thesis using listenStdin_incoming only_incomingD assms(2) by metis
  next
    case SocketPipe
    then have "listenSocket g inc n w = Inr (True, w')"
      using on by (auto simp: checked_def rbind_eq_Inr split: if_splits)
    then show ?thesis
    proof (cases rule: listenSocket_cases)
      case (1 out ok buffer c w1 m)
      then have "conn w1 \<noteq> None" using assms(2) receiveData_Some by fastforce
      then show ?thesis using 1 udp_incoming_conn by auto
    qed
  next
    case ToSendPipe
    then have "listenToSendPipe fd n w = Inr (True, w')"
      using on by (auto simp: checked_def rbind_eq_Inr split: if_splits)
    then obtain w1 where s: "clear_pipe ''send'' fd w = Inr (True, w1)" "send_next n w1 = Inr w'"
      by (auto simp: listenToSendPipe_def rbind_eq_Inr split: if_splits)
    have "conn w1 = conn w" using clear_pipe_read [OF s(1)] by auto
    then show ?thesis using send_next_conn [OF s(2)] assms(2) by simp
  next
    case SignalPipe
    then have "listenSignal fd w = Inr (True, w')"
      using on by (auto simp: checked_def rbind_eq_Inr split: if_splits)
    then show ?thesis using listenSignal_conn assms(2) by simp
  next
    case Unknown
    then show ?thesis using on by simp
  qed
qed

text \<open>
  The notification handler in a notified system: it blocks on an empty pipe, and otherwise
  takes one byte and the oldest mail.
\<close>

lemma notify_read:
  assumes "open_pipe p (kernel w)" and "read_fd p \<notin> set (nonblock (kernel w))"
  shows "if pending p (kernel w) = [] then clear_pipe name (read_fd p) w = Inl Blocked
    else \<exists>k. clear_pipe name (read_fd p) w = Inr (True, w\<lparr>kernel := k\<rparr>) \<and> fds k = fds (kernel w) \<and>
      nonblock k = nonblock (kernel w) \<and> pending p k = tl (pending p (kernel w))"
proof (cases "pending p (kernel w) = []")
  case True
  obtain n where n: "map_of (fds (kernel w)) (read_fd p) = Some (Read_end n)"
    "Write_end n \<in> snd ` set (fds (kernel w))" using assms(1) by (rule open_pipe_ends)
  then have "sys_read (read_fd p) 1 (kernel w) = (Block, kernel w)"
    using True assms(2) by (simp add: sys_read_def pending_def)
  then show ?thesis using True by (simp add: clear_pipe_def Let_def)
next
  case False
  obtain k where k: "sys_read (read_fd p) 1 (kernel w) = (Count (take 1 (pending p (kernel w))), k)"
    "fds k = fds (kernel w)" "nonblock k = nonblock (kernel w)" "pending p k = drop 1 (pending p (kernel w))"
    using sys_read_open [OF assms(1) False] by blast
  then have "clear_pipe name (read_fd p) w = Inr (True, w\<lparr>kernel := k\<rparr>)"
    using False by (simp add: clear_pipe_def Let_def)
  with False k show ?thesis by (auto simp: drop_Suc)
qed

lemma event_quiet_kernel:
  assumes "on_event g (fd, inc, n) w = Inr w'" and "map_of (fdMap (lst w)) fd \<noteq> Some ToSendPipe"
  shows "quiet w w' \<and> (kernel w' = kernel w \<or>
    map_of (fdMap (lst w)) fd \<in> {Some StdinPipe, Some SignalPipe} \<and> (\<exists>m r. sys_read fd m (kernel w) = (r, kernel w')))"
proof
  show "quiet w w'" using on_event_cases [OF assms(1)] assms(2) by blast
  show "kernel w' = kernel w \<or> map_of (fdMap (lst w)) fd \<in> {Some StdinPipe, Some SignalPipe} \<and>
    (\<exists>m r. sys_read fd m (kernel w) = (r, kernel w'))"
  proof (cases "map_of (fdMap (lst w)) fd")
    case None
    then show ?thesis using assms by (simp add: on_event_def)
  next
    case (Some t)
    note on = assms(1) [unfolded on_event_def prod.case Some option.case]
    show ?thesis
    proof (cases t)
      case StdinPipe
      then have "listenStdin fd w = Inr (True, w')"
        using on by (auto simp: checked_def rbind_eq_Inr split: if_splits)
      then show ?thesis using listenStdin_read Some StdinPipe by blast
    next
      case SocketPipe
      then have "listenSocket g inc n w = Inr (True, w')"
        using on by (auto simp: checked_def rbind_eq_Inr split: if_splits)
      then show ?thesis using listenSocket_kernel by blast
    next
      case ToSendPipe
      then show ?thesis using assms(2) Some by simp
    next
      case SignalPipe
      then have "listenSignal fd w = Inr (True, w')"
        using on by (auto simp: checked_def rbind_eq_Inr split: if_splits)
      then show ?thesis using listenSignal_read Some SignalPipe by blast
    next
      case Unknown
      then show ?thesis using on by simp
    qed
  qed
qed

lemma event_send:
  assumes "on_event g (fd, inc, n) w = Inr w'" and "map_of (fdMap (lst w)) fd = Some ToSendPipe"
  obtains w1 m where "clear_pipe ''send'' fd w = Inr (True, w1)" "sends m w1 w'" "kernel w' = kernel w1"
proof -
  have "listenToSendPipe fd n w = Inr (True, w')"
    using assms by (auto simp: on_event_def checked_def rbind_eq_Inr split: if_splits)
  then obtain w1 where s: "clear_pipe ''send'' fd w = Inr (True, w1)" "send_next n w1 = Inr w'"
    by (auto simp: listenToSendPipe_def rbind_eq_Inr split: if_splits)
  then show thesis using send_next_sends [OF s(2)] send_next_kernel [OF s(2)] that by blast
qed

lemma notified_pipe:
  assumes "notified s"
  shows "open_pipe (send_pipe s) (kernel (world s))" "read_fd (send_pipe s) \<notin> set (nonblock (kernel (world s)))"
    "open_pipe (in_pipe s) (kernel (world s))" "open_pipe (signal_pipe s) (kernel (world s))"
    "apart (in_pipe s) (send_pipe s) (kernel (world s))" "apart (signal_pipe s) (send_pipe s) (kernel (world s))"
  using assms by (simp_all add: notified_def plumbed_def Let_def)

lemma event_notified:
  assumes "notified s" and "on_event g x (world s) = Inr w'"
  shows "notified (s\<lparr>world := w', todo := rest\<rparr>)"
proof -
  let ?w = "world s" and ?p = "send_pipe s"
  obtain fd inc n where x: "x = (fd, inc, n)" by (rule prod_cases3)
  note on = assms(2) [unfolded x]
  have conn: "conn w' \<noteq> None" using on_event_conn [OF on] assms(1) by (simp add: notified_def)
  have wired: "wired ?p ?w" and plumbed: "plumbed s"
    and count: "length (pending ?p (kernel ?w)) = length (outgoingMails (mbox ?w))"
    using assms(1) by (simp_all add: notified_def)
  show ?thesis
  proof (cases "map_of (fdMap (lst ?w)) fd = Some ToSendPipe")
    case True
    then have fd: "fd = read_fd ?p" using wired by (simp add: wired_def getReadFd_def)
    obtain w1 m where s: "clear_pipe ''send'' fd ?w = Inr (True, w1)" "sends m w1 w'" "kernel w' = kernel w1"
      using event_send [OF on True] .
    have ne: "pending ?p (kernel ?w) \<noteq> []"
      using notify_read [OF notified_pipe(1,2) [OF assms(1)], of "''send''"] s(1) by (auto simp: fd)
    then obtain k where k: "w1 = ?w\<lparr>kernel := k\<rparr>" "fds k = fds (kernel ?w)" "nonblock k = nonblock (kernel ?w)"
      "pending ?p k = tl (pending ?p (kernel ?w))"
      using notify_read [OF notified_pipe(1,2) [OF assms(1)], of "''send''"] s(1) by (auto simp: fd)
    have "plumbed (s\<lparr>world := w', todo := rest\<rparr>)"
      by (rule plumbed_same [OF plumbed]) (use s(2,3) k in \<open>auto simp: sends_def\<close>)
    moreover have "wired ?p w'" using wired s(2) k(1) by (auto simp: wired_def sends_def)
    moreover have "length (pending ?p (kernel w')) = length (outgoingMails (mbox w'))"
      using s(2,3) k count by (simp add: sends_def)
    ultimately show ?thesis using conn by (simp add: notified_def)
  next
    case False
    note q = event_quiet_kernel [OF on False]
    have rd: "fds (kernel w') = fds (kernel ?w) \<and> nonblock (kernel w') = nonblock (kernel ?w) \<and>
        pending ?p (kernel w') = pending ?p (kernel ?w)"
    proof (cases "kernel w' = kernel ?w")
      case False
      with q obtain m r where t: "map_of (fdMap (lst ?w)) fd \<in> {Some StdinPipe, Some SignalPipe}"
        and r: "sys_read fd m (kernel ?w) = (r, kernel w')" by blast
      have "map_of (fds (kernel ?w)) fd \<noteq> map_of (fds (kernel ?w)) (read_fd ?p)"
        using t plumbed notified_pipe(5,6) [OF assms(1)] by (auto simp: plumbed_def apart_def)
      then show ?thesis using sys_read_frame [OF r] by blast
    qed simp
    have sel: "fdMap (lst w') = fdMap (lst ?w)" "wired ?p w'" "outgoingMails (mbox w') = outgoingMails (mbox ?w)"
      using quiet_sel [of ?w w'] q wired by (auto simp: wired_def)
    have "plumbed (s\<lparr>world := w', todo := rest\<rparr>)"
      by (rule plumbed_same [OF plumbed]) (use rd sel in simp_all)
    then show ?thesis using conn sel rd count by (simp add: notified_def)
  qed
qed

text \<open>A turn of the state machine.\<close>

definition posts :: "Pipe \<Rightarrow> MailBox \<Rightarrow> Kernel \<Rightarrow> MailBox \<Rightarrow> Kernel \<Rightarrow> bool" where
  "posts p mb k mb' k' \<longleftrightarrow> notifyListenerPipe mb' = notifyListenerPipe mb \<and>
     delivery_service mb' = delivery_service mb \<and> fds k' = fds k \<and> nonblock k' = nonblock k \<and>
     (\<exists>sent. outgoingMails mb' = outgoingMails mb @ sent \<and>
        length (pending p k') = length (pending p k) + length sent) \<and>
     (\<exists>taken. incomingMails mb = taken @ incomingMails mb')"

lemma posts_sendMail:
  assumes "linked p mb k" and "sendMail m mb k = Inr (m', mb', k')"
  shows "posts p mb k mb' k' \<and> addToMailQueue m' = addToMailQueue m"
proof (cases "addToMailQueue m")
  case True
  from sendMail_linked [OF assms(1) True] assms(2) show ?thesis by (auto simp: posts_def)
next
  case False
  then show ?thesis using assms(2) by (auto simp: sendMail_def posts_def)
qed

lemma posts_take:
  "posts p (mb\<lparr>incomingMails := ms\<rparr>) k mb' k' \<Longrightarrow> incomingMails mb = m # ms \<Longrightarrow> posts p mb k mb' k'"
  by (auto simp: posts_def)

lemma posts_refl: "posts p mb k mb k"
  by (simp add: posts_def)

text \<open>A branch of the machine posts, and goes on with the mail it was given or made.\<close>

definition branch :: "Pipe \<Rightarrow> Mail \<Rightarrow> MailBox \<Rightarrow> Kernel \<Rightarrow> fsm_result \<Rightarrow> bool" where
  "branch p m mb k r \<longleftrightarrow> (\<forall>out fsm mb' k'. r = Inr (out, fsm, mb', k') \<longrightarrow>
     posts p mb k mb' k' \<and> addToMailQueue (fmail fsm) = addToMailQueue m)"

lemma branch_goto: "branch p m mb k (goto out s m mb k)"
  by (simp add: branch_def goto_def posts_refl)

lemma branch_forward: "linked p mb k \<Longrightarrow> branch p m mb k (forward out s m mb k)"
  by (auto simp: branch_def forward_def goto_def rbind_eq_Inr dest!: posts_sendMail)

lemma branch_send_new: "linked p mb k \<Longrightarrow> branch p m mb k (send_new out t s m mb k)"
  using branch_forward writeMail_type_sound
  by (fastforce simp: branch_def send_new_def rbind_eq_Inr)

lemma branch_fault: "branch p m mb k (Inl e)"
  by (simp add: branch_def)

lemma branch_unexpected: "branch p m mb k (rbind (unexpected m) (\<lambda>e. goto (out @ e) s m mb k))"
  by (auto simp: branch_def goto_def rbind_eq_Inr posts_refl)

lemmas branches = branch_goto branch_forward branch_send_new branch_fault branch_unexpected

lemma branch_handlers:
  assumes "linked p mb k"
  shows "branch p m mb k (on_START out t m mb k)" and "branch p m mb k (on_AUTH out t m mb k)"
    and "branch p m mb k (on_OPEN out t m mb k)"
  using assms
  by (cases t; cases "mdata m"; simp add: on_START_def on_AUTH_def on_OPEN_def branches)+

lemma with_mail_posts:
  assumes "with_mail h mb k = Inr (out, fsm', mb', k')" and "linked p mb k"
    and h: "\<And>out t m mb. linked p mb k \<Longrightarrow> branch p m mb k (h out t m mb k)"
  shows "posts p mb k mb' k' \<and> (list_all queued (incomingMails mb) \<longrightarrow> addToMailQueue (fmail fsm'))"
proof -
  from assms(1) obtain o1 m ms t where m: "incomingMails mb = m # ms"
    and r: "h o1 t m (mb\<lparr>incomingMails := ms\<rparr>) k = Inr (out, fsm', mb', k')"
    by (auto simp: with_mail_def waitMail_def rbind_eq_Inr split: list.splits option.splits)
  have "linked p (mb\<lparr>incomingMails := ms\<rparr>) k" using assms(2) by (simp add: linked_def)
  from h [OF this] r have "posts p (mb\<lparr>incomingMails := ms\<rparr>) k mb' k'"
    "addToMailQueue (fmail fsm') = addToMailQueue m" by (auto simp: branch_def)
  then show ?thesis using posts_take [OF _ m] m by (auto simp: queued_def)
qed

lemma fsm_posts:
  assumes "fsm_iteration fsm mb k = Inr (out, fsm', mb', k')" and "linked p mb k"
    and "state fsm \<noteq> END"
  shows "posts p mb k mb' k' \<and> (list_all queued (incomingMails mb) \<longrightarrow>
    (state fsm = ERROR \<longrightarrow> addToMailQueue (fmail fsm)) \<longrightarrow> addToMailQueue (fmail fsm'))"
proof (cases "state fsm")
  case START
  then show ?thesis using assms(1) with_mail_posts [where h = on_START, OF _ assms(2)] branch_handlers(1) by (simp add: fsm_iteration_def)
next
  case AUTH
  then show ?thesis using assms(1) with_mail_posts [where h = on_AUTH, OF _ assms(2)] branch_handlers(2) by (simp add: fsm_iteration_def)
next
  case OPEN
  then show ?thesis using assms(1) with_mail_posts [where h = on_OPEN, OF _ assms(2)] branch_handlers(3) by (simp add: fsm_iteration_def)
next
  case ERROR
  then show ?thesis using assms branch_send_new [OF assms(2)] by (fastforce simp: fsm_iteration_def branch_def)
qed (use assms in simp)

lemma notified_linked: "notified s \<Longrightarrow> linked (send_pipe s) (mbox (world s)) (kernel (world s))"
  using notified_pipe(1) by (simp add: linked_def notified_def wired_def)

lemma fsm_notified:
  assumes "notified s" and "state (machine s) \<noteq> END"
    and "fsm_iteration (machine s) (mbox (world s)) (kernel (world s)) = Inr (out, m, mb, k)"
  shows "notified (s\<lparr>machine := m, world := print out ((world s)\<lparr>mbox := mb, kernel := k\<rparr>)\<rparr>)"
proof -
  let ?s = "s\<lparr>machine := m, world := print out ((world s)\<lparr>mbox := mb, kernel := k\<rparr>)\<rparr>"
  have p: "posts (send_pipe s) (mbox (world s)) (kernel (world s)) mb k"
    using fsm_posts [OF assms(3) notified_linked [OF assms(1)] assms(2)] by simp
  have "plumbed s" using assms(1) by (simp add: notified_def)
  then have "plumbed ?s" by (rule plumbed_same) (use p in \<open>simp_all add: posts_def\<close>)
  then show ?thesis using assms(1) p by (auto simp: notified_def wired_def posts_def)
qed

lemma begin_turn_notified:
  assumes "notified s" and "begin_turn e (world s) = Inr (t, w)"
  shows "notified (s\<lparr>world := w, todo := evs\<rparr>) \<and> settles (send_pipe s) (world s) w"
proof -
  obtain c where "wired (send_pipe s) (world s)" "conn (world s) = Some c"
    using assms(1) by (auto simp: notified_def)
  from begin_turn_settles [OF this, of e] assms(2)
  have st: "settles (send_pipe s) (world s) w" by auto
  then have sel: "kernel w = kernel (world s)" "wired (send_pipe s) w" by (auto simp: settles_def)
  have "plumbed s" using assms(1) by (simp add: notified_def)
  then have "plumbed (s\<lparr>world := w, todo := evs\<rparr>)"
    by (rule plumbed_same) (use sel settles_sel [OF st] in simp_all)
  then show ?thesis using assms(1) sel settles_sel [OF st] st by (auto simp: notified_def)
qed

lemma on_timeout_kernel: "on_timeout now n w = Inr w' \<Longrightarrow>
    kernel w' = kernel w \<and> mbox w' = mbox w \<and> fdMap (lst w') = fdMap (lst w) \<and>
    interest (lst w') = interest (lst w) \<and> toSendRegistered (lst w') = toSendRegistered (lst w)"
  by (auto simp: on_timeout_def rbind_eq_Inr split: if_splits dest!: send_mail_sel)

lemma on_timeout_conn: "on_timeout now n w = Inr w' \<Longrightarrow> conn w \<noteq> None \<Longrightarrow> conn w' \<noteq> None"
  by (auto simp: on_timeout_def rbind_eq_Inr split: if_splits dest!: send_mail_Some)

lemma idle_notified:
  assumes "notified s" and "listener_turn g e (world s) = Inr w" and "\<forall>events. wake e \<noteq> Ready events"
  shows "notified (set_world w s)"
proof -
  from assms(2) obtain t w1 where w1: "begin_turn e (world s) = Inr (t, w1)" "after_wait g e w1 = Inr w"
    by (auto simp: listener_turn_Inr turn_body_def rbind_eq_Inr)
  have n1: "notified (s\<lparr>world := w1, todo := todo s\<rparr>)" using begin_turn_notified [OF assms(1) w1(1)] by blast
  show ?thesis
  proof (cases "wake e")
    case Interrupted
    then show ?thesis using w1(2) n1 by (simp add: after_wait_def set_world_def)
  next
    case Timed_out
    then have r: "on_timeout (t_reset e) (n_resend e) w1 = Inr w" using w1(2) by (simp add: after_wait_def)
    note k = on_timeout_kernel [OF r]
    have "plumbed (s\<lparr>world := w1, todo := todo s\<rparr>)" using n1 by (simp add: notified_def)
    then have "plumbed (set_world w s)" by (rule plumbed_same) (use k in \<open>simp_all add: set_world_def\<close>)
    then show ?thesis using n1 k on_timeout_conn [OF r] by (auto simp: notified_def wired_def set_world_def)
  qed (use assms(3) in simp)
qed

lemma write_notified:
  assumes "notified s" and "Pipe_write q data (kernel (world s)) = Inr k"
    and "q = in_pipe s \<or> q = signal_pipe s"
  shows "notified (set_world ((world s)\<lparr>kernel := k\<rparr>) s)"
proof -
  have "open_pipe q (kernel (world s))" "apart q (send_pipe s) (kernel (world s))"
    using notified_pipe [OF assms(1)] assms(3) by auto
  with Pipe_write_open [of q "kernel (world s)" data] assms(2)
  have k: "fds k = fds (kernel (world s))" "nonblock k = nonblock (kernel (world s))"
    "pending (send_pipe s) k = pending (send_pipe s) (kernel (world s))" by auto
  have "plumbed s" using assms(1) by (simp add: notified_def)
  then have "plumbed (set_world ((world s)\<lparr>kernel := k\<rparr>) s)"
    by (rule plumbed_same) (use k in \<open>simp_all add: set_world_def\<close>)
  then show ?thesis using assms(1) k by (auto simp: notified_def wired_def set_world_def)
qed

lemma handleSignal_write:
  assumes "open_pipe q k" and "handleSignal (write_fd q) k = Inr k'"
  shows "Pipe_write q ''1'' k = Inr k'"
  using assms by (auto simp: handleSignal_def Pipe_write_def open_pipe_def split: option.splits)

lemma stop_notified:
  assumes "notified s"
  shows "notified (set_world ((world s)\<lparr>lst := fst (Listener_stop (lst (world s)))\<rparr>) s)"
proof -
  have "plumbed s" using assms by (simp add: notified_def)
  then have "plumbed (set_world ((world s)\<lparr>lst := fst (Listener_stop (lst (world s)))\<rparr>) s)"
    by (rule plumbed_same) (simp_all add: set_world_def Listener_stop_def)
  then show ?thesis using assms by (auto simp: notified_def wired_def set_world_def Listener_stop_def)
qed

lemma step_notified: "notified s \<Longrightarrow> sys_step g s s' \<Longrightarrow> notified s'"
proof (erule sys_stepE)
  fix out m mb k
  assume "notified s" "state (machine s) \<noteq> END"
    "fsm_iteration (machine s) (mbox (world s)) (kernel (world s)) = Inr (out, m, mb, k)"
    "s' = s\<lparr>machine := m, world := print out ((world s)\<lparr>mbox := mb, kernel := k\<rparr>)\<rparr>"
  then show "notified s'" using fsm_notified by blast
next
  fix k assume n: "notified s" "handleSignal (write_fd (signal_pipe s)) (kernel (world s)) = Inr k"
    "s' = set_world ((world s)\<lparr>kernel := k\<rparr>) s"
  then show "notified s'"
    using write_notified [OF n(1) handleSignal_write [OF notified_pipe(4) [OF n(1)] n(2)]] by blast
qed (use begin_turn_notified idle_notified event_notified write_notified stop_notified in blast)+

subsection \<open>The start\<close>

lemma pending_new_Pipe:
  assumes "new_Pipe t k = Inr (p, k')" and "sane_kernel k" and "open_pipe q k"
  shows "pending q k' = pending q k"
proof -
  note sh = new_Pipe_shape [OF assms(1)]
  from assms(3) obtain n where n: "map_of (fds k) (read_fd q) = Some (Read_end n)"
    "Read_end n \<in> snd ` set (fds k)"
    by (rule open_pipe_ends)
  have "n < next_pipe k" using assms(2) n(2) by (auto simp: sane_kernel_def)
  moreover have "read_fd q \<in> fst ` set (fds k)" using n by (metis map_of_eq_None_iff option.distinct(1))
  then have "read_fd q \<noteq> read_fd p" "read_fd q \<noteq> write_fd p" using sh(4,5) by metis+
  moreover have "bufs k' = (bufs k)(next_pipe k := [])"
    using assms(1) by (auto simp: new_Pipe_def sys_pipe_def split: option.splits list.splits)
  ultimately show ?thesis using n sh(1) by (simp add: pending_def)
qed

lemma sys_socket_shape:
  assumes "sys_socket k = (sock, k')" and "sane_kernel k"
  shows "sane_kernel k' \<and> (0 \<le> sock \<longrightarrow> sock \<in> fst ` set (fds k'))"
proof (cases "free_fds k")
  case Nil
  then show ?thesis using assms by (simp add: sys_socket_def)
next
  case (Cons fd rest)
  then have "k' = k\<lparr>fds := (sock, Other) # fds k\<rparr>" using assms(1) by (auto simp: sys_socket_def)
  then show ?thesis using assms(2) by (simp add: sane_kernel_def subset_insertI2)
qed

lemma openConnection_shape:
  assumes "conn_openConnection g sock connected (new_NetworkConnection type host p timeout n) = Inr (True, c)"
  shows "\<exists>c'. c = Some c' \<and> protocol_type c' = type \<and> sockfd c' = Some sock \<and> 0 \<le> sock \<and>
    (type = UDP \<longrightarrow> 0 \<le> conf_retries c')"
  using assms
  by (cases type)
    (auto simp: conn_openConnection_def new_NetworkConnection_def new_TcpProtocol_def new_UdpProtocol_def
      tcp_openConnection_def udp_openConnection_def createSocket_defs rbind_eq_Inr
      tcp_connectToServer_def udp_connectToServer_def split: if_splits option.splits)

lemma set_up_shape:
  assumes "set_up g connected type args k = Inr s" and "sane_kernel k"
  shows "notified s \<and> machine s = new_FSM START \<and> todo s = [] \<and> conn_of type (conn (world s)) \<and>
    mbox (world s) = new_MailBox type (Some (send_pipe s)) \<and> (type = UDP \<longrightarrow> started (send_pipe s) (world s)) \<and>
    (\<exists>sock. distinct [getReadFd (in_pipe s), sock, getReadFd (send_pipe s), getReadFd (signal_pipe s)] \<and>
      registerFds (main_listener (getReadFd (in_pipe s)) sock (getReadFd (send_pipe s))
        (getReadFd (signal_pipe s)) type) = Inr (lst (world s)))"
proof -
  obtain sock k1 where k1: "sys_socket k = (sock, k1)" by fastforce
  have sane: "sane_kernel k1" "0 \<le> sock \<longrightarrow> sock \<in> fst ` set (fds k1)"
    using sys_socket_shape [OF k1 assms(2)] by auto
  from assms(1) obtain c sockfd p1 k2 p2 k3 p3 k4 l where
      o: "conn_openConnection g sock connected (new_NetworkConnection type (arg_ip args) (arg_port args)
        (arg_timeout args) (ucast (arg_retries args))) = Inr (True, c)"
    and fd: "getFdsocket c = Inr sockfd"
    and p: "new_Pipe StdinPipe k1 = Inr (p1, k2)" "new_Pipe ToSendPipe k2 = Inr (p2, k3)"
      "new_Pipe SignalPipe k3 = Inr (p3, k4)"
    and l: "guarded (registerFds (main_listener (getReadFd p1) sockfd (getReadFd p2) (getReadFd p3) type)) = Inr l"
    and s: "s = \<lparr>machine = new_FSM START,
          world = \<lparr>lst = l, mbox = new_MailBox type (Some p2), conn = c, kernel = k4, con = []\<rparr>,
          todo = [], in_pipe = p1, send_pipe = p2, signal_pipe = p3\<rparr>"
    by (auto simp: set_up_def k1 rbind_eq_Inr split: if_splits)
  obtain c' where c': "c = Some c'" "protocol_type c' = type" "sockfd = sock" "0 \<le> sock"
    "type = UDP \<longrightarrow> 0 \<le> conf_retries c'"
    using openConnection_shape [OF o] fd by (auto simp: getFdsocket_def deref_def)
  have sane': "sane_kernel k2" "sane_kernel k3"
    using new_Pipe_sane [OF p(1) sane(1)] new_Pipe_sane [OF p(2)] by simp_all
  have open1: "open_pipe p1 k2" "open_pipe p2 k3" "open_pipe p3 k4" "pending p2 k3 = []"
    using new_Pipe_open [OF p(1)] new_Pipe_open [OF p(2)] new_Pipe_open [OF p(3)] by simp_all
  note o12 = new_Pipe_other [OF p(2) sane'(1) open1(1)]
  note o13 = new_Pipe_other [OF p(3) sane'(2), of p1] and o23 = new_Pipe_other [OF p(3) sane'(2) open1(2)]
  have sock: "sock \<noteq> read_fd p1" "sock \<noteq> read_fd p2" "sock \<noteq> read_fd p3"
  proof -
    have "sock \<in> fst ` set (fds k1)" using c'(4) sane(2) by simp
    moreover from this have "sock \<in> fst ` set (fds k2)" by (simp add: new_Pipe_shape(1) [OF p(1)])
    moreover from this have "sock \<in> fst ` set (fds k3)" by (simp add: new_Pipe_shape(1) [OF p(2)])
    ultimately show "sock \<noteq> read_fd p1" "sock \<noteq> read_fd p2" "sock \<noteq> read_fd p3"
      using new_Pipe_shape(4) [OF p(1)] new_Pipe_shape(4) [OF p(2)] new_Pipe_shape(4) [OF p(3)] by metis+
  qed
  have d: "distinct [getReadFd p1, sockfd, getReadFd p2, getReadFd p3]"
    using o12 o13 [OF conjunct1 [OF o12]] o23 sock c'(3) by (auto simp: getReadFd_def)
  have l': "l = (main_listener (getReadFd p1) sockfd (getReadFd p2) (getReadFd p3) type)\<lparr>interest :=
      [getReadFd p1, sockfd, getReadFd p2, getReadFd p3]\<rparr>"
    using l main_listener_registered [OF d, of type] by (simp add: guarded_def)
  note m = main_listener_fdMap [OF d, of type]
  have apart: "apart p1 p2 k4" "apart p3 p2 k4"
    using o12 o13 [OF conjunct1 [OF o12]] o23 by (auto simp: apart_def)
  have nb: "read_fd p2 \<notin> set (nonblock k4)"
    using sane'(1) new_Pipe_shape(2,4) [OF p(2)] new_Pipe_shape(2) [OF p(3)] by (auto simp: sane_kernel_def)
  have pend: "pending p2 k4 = []"
    using pending_new_Pipe [OF p(3) sane'(2) open1(2)] open1(4) by simp
  have "plumbed s"
    using open1(3) o12 o13 [OF conjunct1 [OF o12]] o23 apart nb m d by (auto simp: plumbed_def s l' getReadFd_def split: if_splits)
  moreover have "wired p2 (world s)"
    using d m by (auto simp: wired_def s l' new_MailBox_def main_listener_def addFd_def new_Listener_def split: if_splits)
  ultimately have "notified s"
    using c' pend by (simp add: notified_def s new_MailBox_def)
  moreover have "type = UDP \<longrightarrow> started p2 (world s)"
    unfolding started_def
    using d c' main_listener_registered [OF d, of UDP]
    by (intro impI exI [of _ "getReadFd p1"] exI [of _ sockfd] exI [of _ "getReadFd p3"] exI [of _ c'])
      (simp add: s l')
  moreover have "registerFds (main_listener (getReadFd p1) sockfd (getReadFd p2) (getReadFd p3) type) = Inr l"
    using main_listener_registered [OF d, of type] by (simp add: l')
  ultimately show ?thesis using c' d by (auto simp: s conn_of_def)
qed

subsection \<open>Reachable states\<close>

definition sys_start :: "(string \<Rightarrow> host_addr option) \<Rightarrow> System \<Rightarrow> bool" where
  "sys_start g s \<longleftrightarrow> (\<exists>connected argv0 argv k. sane_kernel k \<and> runMain_setup g connected argv0 argv k = Inr s)"

definition udp_start :: "(string \<Rightarrow> host_addr option) \<Rightarrow> System \<Rightarrow> bool" where
  "udp_start g s \<longleftrightarrow> sys_start g s \<and> delivery_service (mbox (world s)) = UDP"

definition udp_inv :: "System \<Rightarrow> bool" where
  "udp_inv s \<longleftrightarrow> notified s \<and> listener_ok (send_pipe s) (world s) \<and>
     list_all queued (incomingMails (mbox (world s))) \<and>
     (state (machine s) = ERROR \<longrightarrow> addToMailQueue (fmail (machine s)))"

lemma main_guarded_Inr: "main_guarded r = Inr x \<longleftrightarrow> r = Inr x"
  by (auto simp: main_guarded_def split: sum.splits fault.splits)

lemma sys_start_set_up:
  assumes "sys_start g s"
  obtains connected type args k where "sane_kernel k" "set_up g connected type args k = Inr s"
  using assms
  by (auto simp: sys_start_def runMain_setup_def main_guarded_Inr rbind_eq_Inr split: option.splits)

lemma start_notified: "sys_start g s \<Longrightarrow> notified s"
  by (erule sys_start_set_up) (use set_up_shape in blast)

lemma start_udp:
  assumes "udp_start g s"
  shows "udp_inv s"
proof -
  have "sys_start g s" "delivery_service (mbox (world s)) = UDP" using assms by (simp_all add: udp_start_def)
  moreover obtain connected type args k where "sane_kernel k" "set_up g connected type args k = Inr s"
    using sys_start_set_up calculation(1) .
  note set_up_shape [OF this(2,1)]
  ultimately show ?thesis
    using turns.inv_start [of "send_pipe s" "world s"]
    by (auto simp: udp_inv_def new_MailBox_def new_FSM_def)
qed

interpretation program: step_invariant "sys_start g" "sys_step g" notified for g
  by unfold_locales (auto intro: start_notified step_notified)

lemma udp_parts:
  assumes "udp_inv s"
  obtains R where "turn_inv (send_pipe s) R (world s)" "notified s" "list_all queued (incomingMails (mbox (world s)))"
  using assms by (auto simp: udp_inv_def listener_ok_def)

lemma turn_inv_same:
  "turn_inv p R w \<Longrightarrow> lst w' = lst w \<Longrightarrow> conn w' = conn w \<Longrightarrow>
    notifyListenerPipe (mbox w') = notifyListenerPipe (mbox w) \<Longrightarrow>
    delivery_service (mbox w') = delivery_service (mbox w) \<Longrightarrow> turn_inv p R w'"
  by (simp add: turn_inv_def wired_def udp_world_def)

lemma on_event_queued:
  assumes "turn_inv p R w" and "on_event g x w = Inr w'" and "list_all queued (incomingMails (mbox w))"
  shows "list_all queued (incomingMails (mbox w'))"
  using on_event_notify [OF assms(1,2)]
proof
  assume "silent w w'"
  then obtain ms where "incomingMails (mbox w') = incomingMails (mbox w) @ ms" "list_all queued ms"
    unfolding silent_def by blast
  then show ?thesis using assms(3) by simp
next
  assume "\<exists>m. sends m w w' \<and> sends_udp m w w'"
  then show ?thesis using assms(3) by (auto simp: sends_udp_def)
qed

lemma udp_invI:
  "notified s \<Longrightarrow> turn_inv (send_pipe s) R (world s) \<Longrightarrow> list_all queued (incomingMails (mbox (world s))) \<Longrightarrow>
    (state (machine s) = ERROR \<longrightarrow> addToMailQueue (fmail (machine s))) \<Longrightarrow> udp_inv s"
  by (auto simp: udp_inv_def listener_ok_def)

lemma sys_step_cases:
  assumes "sys_step g s s'"
  obtains (fsm_turn) out m mb k where "s' = s\<lparr>machine := m, world := print out ((world s)\<lparr>mbox := mb, kernel := k\<rparr>)\<rparr>"
      "state (machine s) \<noteq> END"
      "fsm_iteration (machine s) (mbox (world s)) (kernel (world s)) = Inr (out, m, mb, k)"
  | (poll) e t w events where "s' = s\<lparr>world := w, todo := events\<rparr>" "todo s = []" "loop_guard (lst (world s))"
      "possible e (world s)" "begin_turn e (world s) = Inr (t, w)" "wake e = Ready events"
  | (idle) e w where "s' = set_world w s" "todo s = []" "loop_guard (lst (world s))" "possible e (world s)"
      "\<forall>events. wake e \<noteq> Ready events" "listener_turn g e (world s) = Inr w"
  | (event) x rest w where "s' = s\<lparr>world := w, todo := rest\<rparr>" "todo s = x # rest" "on_event g x (world s) = Inr w"
  | (typed_line) line k where "s' = set_world ((world s)\<lparr>kernel := k\<rparr>) s"
      "Pipe_write (in_pipe s) (line @ [LF]) (kernel (world s)) = Inr k"
  | (signal) k where "s' = set_world ((world s)\<lparr>kernel := k\<rparr>) s"
      "handleSignal (write_fd (signal_pipe s)) (kernel (world s)) = Inr k"
  | (stop) "s' = set_world ((world s)\<lparr>lst := (lst (world s))\<lparr>keepRunning := False\<rparr>\<rparr>) s"
      "state (machine s) = END"
  using assms by (rule sys_stepE) (unfold Listener_stop_def fst_conv, blast+)

lemma step_udp:
  assumes "udp_inv s" and "sys_step g s s'"
  shows "udp_inv s'"
proof -
  obtain R where inv: "turn_inv (send_pipe s) R (world s)" and n: "notified s"
    and q: "list_all queued (incomingMails (mbox (world s)))"
    using assms(1) by (rule udp_parts)
  have err: "state (machine s) = ERROR \<longrightarrow> addToMailQueue (fmail (machine s))"
    using assms(1) by (simp add: udp_inv_def)
  have n': "notified s'" using step_notified [OF n assms(2)] .
  from assms(2) show ?thesis
  proof (cases rule: sys_step_cases)
    case (fsm_turn out m mb k)
    note p = fsm_posts [OF fsm_turn(3) notified_linked [OF n] fsm_turn(2)]
    have "list_all queued (incomingMails mb)" using p q by (auto simp: posts_def)
    moreover have "turn_inv (send_pipe s) R (print out ((world s)\<lparr>mbox := mb, kernel := k\<rparr>))"
      by (rule turn_inv_same [OF inv]) (use p in \<open>simp_all add: posts_def\<close>)
    ultimately show ?thesis using n' p q err fsm_turn(1) by (intro udp_invI) auto
  next
    case (poll e t w events)
    have st: "settles (send_pipe s) (world s) w" using begin_turn_notified [OF n poll(5)] by blast
    show ?thesis
      by (rule udp_invI [where R = R, OF n'])
        (use settles_inv [OF inv st] settles_sel [OF st] q err poll(1) in simp_all)
  next
    case (idle e w)
    have step: "turn_step g (world s) w" using idle by (blast intro: turn_step.turn)
    have "incomingMails (mbox w) = incomingMails (mbox (world s))"
    proof -
      from idle(6) obtain t w1 where w1: "begin_turn e (world s) = Inr (t, w1)" "after_wait g e w1 = Inr w"
        by (auto simp: listener_turn_Inr turn_body_def rbind_eq_Inr)
      then show ?thesis
        using idle(5) begin_turn_sel [OF w1(1)]
        by (cases "wake e") (auto simp: after_wait_def dest!: on_timeout_sel)
    qed
    then show ?thesis
      by (intro udp_invI [where R = R, OF n']) (use turn_step_inv [OF inv step] q err idle(1) in \<open>simp_all add: set_world_def\<close>)
  next
    case (event x rest w)
    show ?thesis
      by (rule udp_invI [where R = R, OF n'])
        (use on_event_inv [OF inv event(3)] on_event_queued [OF inv event(3) q] err event(1) in simp_all)
  next
    case (typed_line line k)
    show ?thesis
      by (rule udp_invI [where R = R, OF n'])
        (use turn_inv_same [OF inv] q err typed_line(1) in \<open>simp_all add: set_world_def\<close>)
  next
    case (signal k)
    show ?thesis
      by (rule udp_invI [where R = R, OF n'])
        (use turn_inv_same [OF inv] q err signal(1) in \<open>simp_all add: set_world_def\<close>)
  next
    case stop
    have "turn_inv (send_pipe s) R ((world s)\<lparr>lst := (lst (world s))\<lparr>keepRunning := False\<rparr>\<rparr>)"
      using inv by (simp add: turn_inv_def wired_def udp_world_def ack_inv_def)
    then show ?thesis
      by (intro udp_invI [where R = R, OF n']) (use q err stop(1) in \<open>simp_all add: set_world_def\<close>)
  qed
qed

interpretation udp_program: step_invariant "udp_start g" "sys_step g" udp_inv for g
  by unfold_locales (auto intro: start_udp step_udp)

subsection \<open>Faults of the state machine\<close>

text \<open>The only faults of a branch: a display name that the ERR message rejects.\<close>

definition fault_ok :: "MailBox \<Rightarrow> 'a result \<Rightarrow> bool" where
  "fault_ok mb r \<longleftrightarrow> (\<forall>e. r = Inl e \<longrightarrow>
     \<not> valid_name (displayName mb) \<and> e = rejection ''DisplayName'' (displayName mb))"

lemma fault_ok_goto: "fault_ok mb (goto out s m mb' k)"
  by (simp add: fault_ok_def goto_def)

lemma fault_ok_forward:
  assumes "linked p mb k" and "addToMailQueue m"
  shows "fault_ok mb' (forward out s m mb k)"
  using sendMail_linked [OF assms] by (auto simp: fault_ok_def forward_def goto_def)

lemma fault_ok_send_new:
  assumes "linked p mb k" and "addToMailQueue m" and "t \<in> {ERR, BYE}"
  shows "fault_ok mb (send_new out t s m mb k)"
proof (cases "writeMail_type t m (-1) mb")
  case (Inl e)
  then have "fault_ok mb (send_new out t s m mb k :: fsm_result)"
    using assms(3) by (auto simp: send_new_def fault_ok_def writeMail_type_def mkErrorMessage_def
        validators_eq split: if_splits)
  then show ?thesis .
next
  case (Inr m')
  then have "addToMailQueue m'" using writeMail_type_sound assms(2) by blast
  then show ?thesis using fault_ok_forward [OF assms(1)] Inr by (simp add: send_new_def)
qed

lemmas fault_ok_branches = fault_ok_goto fault_ok_forward fault_ok_send_new

lemma fault_ok_handlers:
  assumes "linked p mb k" and "queued m" and "mtype m = Some t"
  shows "fault_ok mb (on_START out t m mb k)" and "fault_ok mb (on_AUTH out t m mb k)"
    and "fault_ok mb (on_OPEN out t m mb k)"
  using assms
  by (cases t; cases "mdata m";
      simp add: on_START_def on_AUTH_def on_OPEN_def fault_ok_branches sound_defs unexpected_def)+

lemma with_mail_fault:
  assumes "linked p mb k" and "list_all queued (incomingMails mb)"
    and h: "\<And>out t m mb. linked p mb k \<Longrightarrow> queued m \<Longrightarrow> mtype m = Some t \<Longrightarrow> fault_ok mb (h out t m mb k)"
  shows "with_mail h mb k = Inl Blocked \<or> fault_ok mb (with_mail h mb k)"
proof (cases "incomingMails mb")
  case Nil
  then show ?thesis by (simp add: with_mail_def waitMail_def)
next
  case (Cons m ms)
  have q: "queued m" using assms(2) Cons by simp
  then obtain out t where t: "announce m = Inr out" "mtype m = Some t"
    using announce_sound [of m] by (auto simp: sound_defs)
  have "linked p (mb\<lparr>incomingMails := ms\<rparr>) k" using assms(1) by (simp add: linked_def)
  from h [OF this q t(2), of out] show ?thesis
    using t Cons by (simp add: with_mail_def waitMail_def fault_ok_def)
qed

lemma iteration_fault:
  assumes "linked p mb k" and "list_all queued (incomingMails mb)"
    and "state fsm = ERROR \<longrightarrow> addToMailQueue (fmail fsm)"
  shows "fsm_iteration fsm mb k = Inl Blocked \<or> fault_ok mb (fsm_iteration fsm mb k)"
proof (cases "state fsm")
  case START
  then show ?thesis using with_mail_fault [where h = on_START, OF assms(1,2)] fault_ok_handlers(1)
    by (simp add: fsm_iteration_def)
next
  case AUTH
  then show ?thesis using with_mail_fault [where h = on_AUTH, OF assms(1,2)] fault_ok_handlers(2)
    by (simp add: fsm_iteration_def)
next
  case OPEN
  then show ?thesis using with_mail_fault [where h = on_OPEN, OF assms(1,2)] fault_ok_handlers(3)
    by (simp add: fsm_iteration_def)
next
  case ERROR
  then show ?thesis using fault_ok_send_new [OF assms(1)] assms(3) by (simp add: fsm_iteration_def)
qed (simp add: fsm_iteration_def fault_ok_def)

subsection \<open>After the end of the machine\<close>

definition ended :: "System \<Rightarrow> bool" where
  "ended s \<longleftrightarrow> state (machine s) = END \<and> no_bye (world s)"

lemma step_ended:
  assumes "ended s" and "sys_step g s s'"
  shows "ended s'"
proof -
  have e: "state (machine s) = END" "no_bye (world s)" using assms(1) by (simp_all add: ended_def)
  from assms(2) show ?thesis
  proof (cases rule: sys_step_cases)
    case (fsm_turn out m mb k)
    then show ?thesis using e by simp
  next
    case (poll e' t w events)
    then show ?thesis using e no_bye_same [OF e(2)] begin_turn_sel [OF poll(5)] by (simp add: ended_def)
  next
    case (idle e' w)
    have "turn_step g (world s) w" using idle by (blast intro: turn_step.turn)
    then show ?thesis using e no_bye_turn [OF e(2)] idle(1) by (simp add: ended_def set_world_def)
  next
    case (event x rest w)
    then show ?thesis using e no_bye_event [OF e(2)] by (simp add: ended_def)
  qed (use e in \<open>simp_all add: ended_def set_world_def no_bye_def\<close>)
qed

interpretation after_end: step_invariant ended "sys_step g" ended for g
  by unfold_locales (simp_all add: step_ended)

subsection \<open>Properties of the program\<close>

text \<open>
  C11. In every reachable state of the program, over TCP and over UDP, the notification pipe
  holds one byte for each mail of the outgoing queue. So the handler of the pipe blocks when
  there is nothing to send, and otherwise finds a mail to send, the oldest one: it never takes
  the front of an empty queue.
\<close>

theorem notification_counts_mails:
  assumes "reach (sys_start g) (sys_step g) s"
  shows "length (pending (send_pipe s) (kernel (world s))) = length (outgoingMails (mbox (world s))) \<and>
    (if outgoingMails (mbox (world s)) = []
     then listenToSendPipe (read_fd (send_pipe s)) n (world s) = Inl Blocked
     else \<exists>k. listenToSendPipe (read_fd (send_pipe s)) n (world s) =
       rbind (send_next n ((world s)\<lparr>kernel := k\<rparr>)) (\<lambda>w. Inr (True, w)))"
proof -
  have n: "notified s" using program.reach_inv [OF assms] .
  have c: "length (pending (send_pipe s) (kernel (world s))) = length (outgoingMails (mbox (world s)))"
    using n by (simp add: notified_def)
  then have "pending (send_pipe s) (kernel (world s)) = [] \<longleftrightarrow> outgoingMails (mbox (world s)) = []"
    by (metis length_0_conv)
  moreover have "clear_pipe ''send'' (read_fd (send_pipe s)) (world s) = Inr (True, (world s)\<lparr>kernel := k\<rparr>) \<Longrightarrow>
      listenToSendPipe (read_fd (send_pipe s)) n (world s) =
        rbind (send_next n ((world s)\<lparr>kernel := k\<rparr>)) (\<lambda>w. Inr (True, w))" for k
    by (simp add: listenToSendPipe_def)
  ultimately show ?thesis
    using notify_read [OF notified_pipe(1,2) [OF n], of "''send''"] c
    by (auto simp: listenToSendPipe_def [of _ _ "world s"] split: if_splits)
qed

text \<open>
  C12. Over UDP the state machine ends in no undefined behaviour and in no wrong access to a
  message in any reachable state of the program: a turn returns, waits for a mail, or throws
  the rejection of an invalid display name, which only \<open>/rename\<close> can set.
\<close>

theorem machine_faults:
  assumes "reach (udp_start g) (sys_step g) s"
  shows "case fsm_iteration (machine s) (mbox (world s)) (kernel (world s)) of
      Inr _ \<Rightarrow> True
    | Inl e \<Rightarrow> e = Blocked \<or> \<not> valid_name (displayName (mbox (world s))) \<and>
        e = rejection ''DisplayName'' (displayName (mbox (world s)))"
proof -
  have u: "udp_inv s" using udp_program.reach_inv [OF assms] .
  then have "linked (send_pipe s) (mbox (world s)) (kernel (world s))"
    using notified_linked by (simp add: udp_inv_def)
  from iteration_fault [OF this, of "machine s"] u show ?thesis
    by (auto simp: udp_inv_def fault_ok_def split: sum.splits)
qed

text \<open>
  C28. A BYE of the server does not end the client. When the machine takes it, in a session in which
  no BYE was sent or queued, it ends without sending one and the main thread goes to stop the
  listener and to join it; but in every state that can follow, the condition of the listener's
  loop holds, so that the join never returns and \<open>runMain\<close> is never left. What can still end
  the process is only a fault of the listener (its \<open>exit(1)\<close> on a \<open>runtime_error\<close>).
\<close>

theorem server_bye_hangs_client:
  assumes "state (machine s) = OPEN" and "incomingMails (mbox (world s)) = m # ms" and "mtype m = Some BYE"
    and "\<not> sentBye (lst (world s))" and "\<forall>m \<in> set (outgoingMails (mbox (world s))). mtype m \<noteq> Some BYE"
  shows "\<exists>s1. sys_step g s s1 \<and> state (machine s1) = END \<and>
    outgoingMails (mbox (world s1)) = outgoingMails (mbox (world s)) \<and>
    (\<forall>s2. (sys_step g)\<^sup>*\<^sup>* s1 s2 \<longrightarrow> state (machine s2) = END \<and> loop_guard (lst (world s2)) \<and> \<not> joined s2)"
proof -
  let ?mb = "(mbox (world s))\<lparr>incomingMails := ms\<rparr>"
  have "announce m = Inr []" using assms(3) by (simp add: announce_def)
  then have it: "fsm_iteration (machine s) (mbox (world s)) (kernel (world s)) =
      Inr ([], \<lparr>state = END, fmail = m\<rparr>, ?mb, kernel (world s))"
    using assms(1-3) by (simp add: fsm_iteration_def with_mail_def waitMail_def on_OPEN_def goto_def)
  let ?s1 = "s\<lparr>machine := \<lparr>state = END, fmail = m\<rparr>,
    world := print [] ((world s)\<lparr>mbox := ?mb, kernel := kernel (world s)\<rparr>)\<rparr>"
  have step: "sys_step g s ?s1" by (rule sys_step.fsm_turn [OF _ it]) (simp add: assms(1))
  have "ended ?s1" using assms(4,5) by (simp add: ended_def no_bye_def)
  then have "(sys_step g)\<^sup>*\<^sup>* ?s1 s2 \<Longrightarrow> ended s2" for s2 using after_end.steps_inv by blast
  then have "(sys_step g)\<^sup>*\<^sup>* ?s1 s2 \<Longrightarrow> state (machine s2) = END \<and> loop_guard (lst (world s2)) \<and> \<not> joined s2" for s2
    using no_bye_guard by (auto simp: ended_def joined_def)
  with step show ?thesis by (intro exI [of _ ?s1]) simp
qed

text \<open>
  The read end of the notification pipe is closed three times when the program ends: by
  \<open>stop\<close>, by the destructor of the listener and by the one of the pipe.
\<close>

theorem descriptor_closed_thrice:
  assumes "reach (sys_start g) (sys_step g) s" and "tear_down s = Inr closes"
  shows "3 \<le> count_list closes (read_fd (send_pipe s))"
proof -
  let ?fd = "read_fd (send_pipe s)"
  have n: "notified s" using program.reach_inv [OF assms(1)] .
  then have "map_of (fdMap (lst (world s))) ?fd = Some ToSendPipe" by (simp add: notified_def plumbed_def)
  then have "?fd \<in> set (map fst (fdMap (lst (world s))))" by (force dest: map_of_SomeD)
  then have "1 \<le> count_list (map fst (fdMap (lst (world s)))) ?fd"
    using count_list_0_iff [of "map fst (fdMap (lst (world s)))" ?fd] by linarith
  moreover have "?fd \<noteq> -1" using notified_pipe(1) [OF n] by (auto simp: open_pipe_def)
  ultimately show ?thesis using assms(2)
    by (auto simp: tear_down_def Listener_stop_def destroy_Listener_def rbind_eq_Inr pipe_closes_def)
qed

text \<open>
  A server name that does not resolve ends the program with the status 255 of a returned
  -1 and a message, before any thread is started.
\<close>

theorem unknown_host_ends_program:
  assumes "new_ArgumentParser argv0 argv = Inr args" and "arg_type args = Some type"
    and "g (arg_ip args) = None" and "free_fds k \<noteq> []"
  shows "runMain_setup g connected argv0 argv k = Inl (Exit 255
    [Stderr (''ERR: '' @ (if type = UDP then ''ERROR: no such host'' else ''No such host'') @ [LF])])"
proof -
  obtain fd rest where f: "free_fds k = fd # rest" using assms(4) by (cases "free_fds k") auto
  then have "fd \<in> set (free_fds k)" by simp
  then have "0 \<le> fd" by (auto simp: free_fds_def)
  then show ?thesis
    using assms(1-3) f
    by (cases type) (auto simp: runMain_setup_def main_guarded_def set_up_def sys_socket_def
      conn_openConnection_def new_NetworkConnection_def new_TcpProtocol_def new_UdpProtocol_def
      tcp_openConnection_def udp_openConnection_def createSocket_defs tcp_connectToServer_def
      udp_connectToServer_def)
qed

subsection \<open>A concrete program\<close>

definition demo_argv :: "string list" where
  "demo_argv = [''-t'', ''udp'', ''-s'', ''localhost'']"

definition demo_hosts :: "string \<Rightarrow> host_addr option" where
  "demo_hosts host = (if host = ''localhost'' then Some [CHR 0x7F, NUL, NUL, CHR 0x01] else None)"

lemma demo_runs: "\<exists>s. runMain_setup demo_hosts 0 ''chat'' demo_argv fresh_kernel = Inr s \<and>
    delivery_service (mbox (world s)) = UDP"
proof -
  have "case runMain_setup demo_hosts 0 ''chat'' demo_argv fresh_kernel of
      Inr s \<Rightarrow> delivery_service (mbox (world s)) = UDP | Inl _ \<Rightarrow> False"
    by code_simp
  then show ?thesis by (auto split: sum.splits)
qed

lemma fresh_sane: "sane_kernel fresh_kernel"
  by (simp add: sane_kernel_def fresh_kernel_def)

text \<open>
  C37. Over TCP a line with a wrong keyword takes the client into undefined behaviour: the
  listener reports it and clears \<open>keepRunning\<close>, but delivers the mail all the same, and the
  state machine, in whichever state it waits, reads a type that was never written.
\<close>

theorem tcp_bad_line_undefined:
  assumes "protocolType (lst w) = TCP" and "delivery_service (mbox w) = TCP" and "conn w = Some c"
    and "protocol_type c = TCP" and "incomingMails (mbox w) = []"
    and "valid_name d" and "valid_content t" and "token x" and "x \<noteq> ''FROM''" and "NUL \<notin> set x"
    and "line = ''MSG '' @ x @ SP # d @ '' IS '' @ t @ [CR, LF]" and "length line \<le> 1023"
    and "state fsm \<in> {START, AUTH, OPEN}"
  shows "\<exists>w'. listenSocket g (Recv line p) n w = Inr (True, w') \<and> \<not> keepRunning (lst w') \<and>
    fsm_iteration fsm (mbox w') k = Inl (Undefined Uninitialised)"
proof -
  have "drop (length line) zero_buffer = NUL # replicate (1023 - length line) NUL"
    using assms(12) by (simp add: zero_buffer_def Suc_diff_le flip: replicate_Suc)
  then have r: "receiveData g (Recv line p) zero_buffer (Some c) =
      Inr ([], True, line @ NUL # replicate (1023 - length line) NUL, Some c)"
    using assms(4,12) by (simp add: receiveData_def tcp_receiveData_def store_def zero_buffer_def)
  have m: "writeMail_buffer (line @ NUL # replicate (1023 - length line) NUL) default_Mail (mbox w) =
      Inr ([], False, default_Mail)"
    using bad_keyword_unwritten [OF assms(6-10)] assms(2) by (simp add: assms(11) writeMail_buffer_def)
  obtain w' where w': "listenSocket g (Recv line p) n w = Inr (True, w')" "\<not> keepRunning (lst w')"
    "incomingMails (mbox w') = [default_Mail]"
    using assms(1,5) by (simp add: listenSocket_def assms(3) r m Let_def)
  then have "with_mail h (mbox w') k = Inl (Undefined Uninitialised)" for h
    by (simp add: with_mail_def waitMail_def announce_def)
  then show ?thesis using w' assms(13) by (auto simp: fsm_iteration_def)
qed

definition demo_tcp :: World where
  "demo_tcp = \<lparr>lst = demo_listener TCP, mbox = new_MailBox TCP None,
     conn = Some (new_TcpProtocol ''server'' 4567), kernel = first_kernel, con = []\<rparr>"

theorem tcp_bad_line_undefined_witness:
  "\<exists>w'. listenSocket demo_hosts (Recv (''MSG '' @ ''FORM'' @ SP # ''bob'' @ '' IS '' @ ''hi'' @ [CR, LF]) 4567)
      3 demo_tcp = Inr (True, w') \<and>
    fsm_iteration (new_FSM OPEN) (mbox w') first_kernel = Inl (Undefined Uninitialised)"
proof -
  have w: "protocolType (lst demo_tcp) = TCP" "delivery_service (mbox demo_tcp) = TCP"
    "conn demo_tcp = Some (new_TcpProtocol ''server'' 4567)" "incomingMails (mbox demo_tcp) = []"
    "protocol_type (new_TcpProtocol ''server'' 4567) = TCP"
    by (simp_all add: demo_tcp_def demo_listener_def new_Listener_def new_MailBox_def new_TcpProtocol_def)
  have f: "valid_name ''bob''" "valid_content ''hi''" "token ''FORM''" "NUL \<notin> set ''FORM''"
    by (simp_all add: valid_defs token_def isspace_def in_range_def code_def)
  from tcp_bad_line_undefined [OF w(1,2,3,5,4) f(1-3) _ f(4) refl, of "new_FSM OPEN" demo_hosts 4567 3 first_kernel]
  show ?thesis by (auto simp: new_FSM_def)
qed

theorem notification_counts_mails_witness:
  "\<exists>s. reach (sys_start demo_hosts) (sys_step demo_hosts) s \<and>
    length (pending (send_pipe s) (kernel (world s))) = length (outgoingMails (mbox (world s)))"
proof -
  obtain s where "runMain_setup demo_hosts 0 ''chat'' demo_argv fresh_kernel = Inr s" using demo_runs by blast
  then have "reach (sys_start demo_hosts) (sys_step demo_hosts) s"
    using fresh_sane by (intro reach_start) (auto simp: sys_start_def)
  with notification_counts_mails [OF this, of 0] show ?thesis by blast
qed

theorem machine_faults_witness:
  "\<exists>s. reach (udp_start demo_hosts) (sys_step demo_hosts) s \<and>
    fsm_iteration (machine s) (mbox (world s)) (kernel (world s)) \<noteq> Inl (Undefined Uninitialised)"
proof -
  obtain s where "runMain_setup demo_hosts 0 ''chat'' demo_argv fresh_kernel = Inr s"
    "delivery_service (mbox (world s)) = UDP" using demo_runs by blast
  then have r: "reach (udp_start demo_hosts) (sys_step demo_hosts) s"
    using fresh_sane by (intro reach_start) (auto simp: udp_start_def sys_start_def)
  from machine_faults [OF r] have "fsm_iteration (machine s) (mbox (world s)) (kernel (world s)) \<noteq>
      Inl (Undefined Uninitialised)"
    by (auto simp: rejection_def)
  with r show ?thesis by blast
qed

definition demo_open :: System where
  "demo_open = \<lparr>machine = new_FSM OPEN,
     world = demo_udp\<lparr>mbox := (mbox demo_udp)\<lparr>incomingMails := [bye_mail]\<rparr>\<rparr>,
     todo = [], in_pipe = first_pipe, send_pipe = first_pipe, signal_pipe = first_pipe\<rparr>"

theorem server_bye_hangs_client_witness:
  "\<exists>s1. sys_step demo_hosts demo_open s1 \<and> state (machine s1) = END \<and>
    (\<forall>s2. (sys_step demo_hosts)\<^sup>*\<^sup>* s1 s2 \<longrightarrow> loop_guard (lst (world s2)) \<and> \<not> joined s2)"
proof -
  have "\<exists>s1. sys_step demo_hosts demo_open s1 \<and> state (machine s1) = END \<and>
    outgoingMails (mbox (world s1)) = outgoingMails (mbox (world demo_open)) \<and>
    (\<forall>s2. (sys_step demo_hosts)\<^sup>*\<^sup>* s1 s2 \<longrightarrow> state (machine s2) = END \<and> loop_guard (lst (world s2)) \<and> \<not> joined s2)"
    by (rule server_bye_hangs_client [where m = bye_mail and ms = "[]"])
      (simp_all add: demo_open_def new_FSM_def demo_listener_def new_Listener_def)
  then show ?thesis by blast
qed

theorem unknown_host_ends_program_witness:
  "runMain_setup demo_hosts 0 ''chat'' [''-t'', ''udp'', ''-s'', ''nohost''] fresh_kernel =
    Inl (Exit 255 [Stderr (''ERR: '' @ ''ERROR: no such host'' @ [LF])])"
proof -
  let ?a = "initial_args\<lparr>arg_type := Some UDP, typeSet := True, arg_ip := ''nohost'', ipSet := True\<rparr>"
  have "new_ArgumentParser ''chat'' [''-t'', ''udp'', ''-s'', ''nohost''] = Inr ?a"
    by (simp add: new_ArgumentParser_def parse_def takes_argument_def parse_option_def initial_args_def)
  moreover have "free_fds fresh_kernel \<noteq> []" by code_simp
  ultimately show ?thesis
    using unknown_host_ends_program [of "''chat''" _ ?a UDP demo_hosts fresh_kernel 0]
    by (simp add: demo_hosts_def initial_args_def)
qed

end
