(* ===== verification/Dialogue.thy ===== *)
theory Dialogue
  imports System
begin

text \<open>
  What the state machine says: the types of the mails it sends, as a language over the
  states. \<open>speaks\<close> is one turn, \<open>spoken\<close> the sequences of types that have been sent when the
  machine is in a state. Every turn of the machine that returns is a step of the language and
  numbers the mail it sends, whatever the display name and the transport.
\<close>

subsection \<open>The language\<close>

fun speaks :: "State \<Rightarrow> MessageType option \<Rightarrow> State \<Rightarrow> bool" where
  "speaks START u s \<longleftrightarrow> (u, s) \<in>
     {(None, START), (Some MessageType.AUTH, AUTH), (Some BYE, END), (Some ERR, ERROR)}"
| "speaks AUTH u s \<longleftrightarrow> (u, s) \<in>
     {(None, AUTH), (None, OPEN), (Some MessageType.AUTH, AUTH), (Some BYE, END), (Some ERR, ERROR)}"
| "speaks OPEN u s \<longleftrightarrow> (u, s) \<in>
     {(None, OPEN), (Some MSG, OPEN), (Some JOIN, OPEN), (None, END), (Some BYE, END), (Some ERR, ERROR)}"
| "speaks ERROR u s \<longleftrightarrow> (u, s) = (Some BYE, END)"
| "speaks END u s \<longleftrightarrow> False"

text \<open>One or more AUTH, then messages and joins.\<close>

definition chatted :: "MessageType list \<Rightarrow> bool" where
  "chatted ts \<longleftrightarrow> ts \<noteq> [] \<and> hd ts = MessageType.AUTH \<and>
     list_all (\<lambda>t. t \<in> {MSG, JOIN}) (dropWhile (\<lambda>t. t = MessageType.AUTH) ts)"

definition failed :: "MessageType list \<Rightarrow> bool" where
  "failed ts \<longleftrightarrow> ts \<noteq> [] \<and> last ts = ERR \<and> (butlast ts = [] \<or> chatted (butlast ts))"

fun spoken :: "State \<Rightarrow> MessageType list \<Rightarrow> bool" where
  "spoken START ts \<longleftrightarrow> ts = []"
| "spoken AUTH ts \<longleftrightarrow> ts \<noteq> [] \<and> list_all (\<lambda>t. t = MessageType.AUTH) ts"
| "spoken OPEN ts \<longleftrightarrow> chatted ts"
| "spoken ERROR ts \<longleftrightarrow> failed ts"
| "spoken END ts \<longleftrightarrow> chatted ts \<or>
     ts \<noteq> [] \<and> last ts = BYE \<and> (butlast ts = [] \<or> chatted (butlast ts) \<or> failed (butlast ts))"

lemma chatted_auth:
  assumes "ts \<noteq> []" and "list_all (\<lambda>t. t = MessageType.AUTH) ts"
  shows "chatted ts"
proof -
  have d: "dropWhile (\<lambda>t. t = MessageType.AUTH) ts = []"
    using assms(2) by (simp add: dropWhile_eq_Nil_conv list_all_iff)
  show ?thesis unfolding chatted_def d using assms by (simp add: list_all_iff)
qed

lemma dropWhile_snoc_false: "\<not> P x \<Longrightarrow> dropWhile P (xs @ [x]) = dropWhile P xs @ [x]"
  by (induction xs) auto

lemma chatted_snoc: "chatted ts \<Longrightarrow> t \<in> {MSG, JOIN} \<Longrightarrow> chatted (ts @ [t])"
  by (auto simp: chatted_def dropWhile_snoc_false)

fun words :: "'a option \<Rightarrow> 'a list" where
  "words None = []"
| "words (Some t) = [t]"

lemma spoken_step: "spoken s ts \<Longrightarrow> speaks s u s' \<Longrightarrow> spoken s' (ts @ words u)"
  using chatted_auth [of ts] chatted_snoc [of ts] by (cases s) (auto simp: failed_def)

text \<open>The machine never says a CONFIRM.\<close>

lemma chatted_types: "chatted ts \<Longrightarrow> set ts \<subseteq> {MessageType.AUTH, MSG, JOIN}"
proof -
  assume "chatted ts"
  then have "set (dropWhile (\<lambda>t. t = MessageType.AUTH) ts) \<subseteq> {MSG, JOIN}"
    by (auto simp: chatted_def list_all_iff)
  moreover have "set ts = set (takeWhile (\<lambda>t. t = MessageType.AUTH) ts) \<union> set (dropWhile (\<lambda>t. t = MessageType.AUTH) ts)"
    by (metis set_append takeWhile_dropWhile_id)
  ultimately show ?thesis by (auto dest: set_takeWhileD)
qed

lemma failed_types: "failed ts \<Longrightarrow> set ts \<subseteq> {MessageType.AUTH, MSG, JOIN, ERR}"
  by (cases ts rule: rev_cases) (auto simp: failed_def dest!: chatted_types)

lemma spoken_types: "spoken s ts \<Longrightarrow> CONFIRM \<notin> set ts"
  by (cases s; cases ts rule: rev_cases) (auto simp: list_all_iff dest!: chatted_types failed_types)

lemma spoken_letters: "spoken s ts \<Longrightarrow> set ts \<subseteq> {MessageType.AUTH, JOIN, MSG, ERR, BYE}"
  by (cases s; cases ts rule: rev_cases) (auto simp: list_all_iff dest!: chatted_types failed_types)

text \<open>A BYE can only come last.\<close>

lemma spoken_bye: "spoken s ts \<Longrightarrow> BYE \<notin> set (butlast ts)"
  by (cases s) (auto simp: list_all_iff dest!: chatted_types failed_types dest: in_set_butlastD)

subsection \<open>Turns of the machine\<close>

text \<open>A mail the machine may meet: complete, or one whose type was never written.\<close>

definition tidy :: "Mail \<Rightarrow> bool" where
  "tidy m \<longleftrightarrow> mtype m = None \<or> queued m"

fun posted :: "MailBox \<Rightarrow> MessageType option \<Rightarrow> MailBox \<Rightarrow> bool" where
  "posted mb None mb' \<longleftrightarrow> outgoingMails mb' = outgoingMails mb \<and> sequenceUDPNumber mb' = sequenceUDPNumber mb"
| "posted mb (Some t) mb' \<longleftrightarrow> (\<exists>m. outgoingMails mb' = outgoingMails mb @ [m] \<and> mtype m = Some t \<and>
     sound m \<and> getMessageID m = uint (sequenceUDPNumber mb)) \<and> sequenceUDPNumber mb' = sequenceUDPNumber mb + 1"

definition utters :: "State \<Rightarrow> MailBox \<Rightarrow> fsm_result \<Rightarrow> bool" where
  "utters s mb r \<longleftrightarrow> (\<forall>out fsm mb' k'. r = Inr (out, fsm, mb', k') \<longrightarrow> addToMailQueue (fmail fsm) \<and>
     (\<exists>u. speaks s u (state fsm) \<and> posted mb u mb'))"

lemma sendMail_posted:
  assumes "sendMail m mb k = Inr (m', mb', k')" and "addToMailQueue m" and "numbered (mdata m)" and "mtype m = Some t"
    and "sound m"
  shows "posted mb (Some t) mb' \<and> addToMailQueue m'"
proof -
  have "sound (m\<lparr>mdata := set_MessageID (sequenceUDPNumber mb) (mdata m)\<rparr>)"
    using assms(5) sound_renumber by (simp add: renumber_def)
  then show ?thesis
    using assms(1-4)
    by (auto simp: sendMail_def Let_def rbind_eq_Inr getMessageID_def set_MessageID_id split: option.splits)
qed

lemma utters_fault: "utters s mb (Inl e)"
  by (simp add: utters_def)

lemma utters_goto: "addToMailQueue m \<Longrightarrow> speaks s None s' \<Longrightarrow> utters s mb (goto out s' m mb k)"
  by (auto simp: utters_def goto_def intro!: exI [of _ None])

lemma utters_forward:
  assumes "addToMailQueue m" and "numbered (mdata m)" and "mtype m = Some t" and "sound m"
    and "speaks s (Some t) s'"
  shows "utters s mb (forward out s' m mb k)"
  using assms sendMail_posted [OF _ assms(1-4)]
  by (fastforce simp: utters_def forward_def goto_def rbind_eq_Inr simp del: posted.simps)

lemma utters_send_new:
  assumes "addToMailQueue m" and "t \<in> {ERR, BYE}" and "speaks s (Some t) s'"
  shows "utters s mb (send_new out t s' m mb k)"
proof (cases "writeMail_type t m (-1) mb")
  case (Inr m')
  then have "mtype m' = Some t" "numbered (mdata m')" "addToMailQueue m'" "sound m'"
    using assms(1,2) writeMail_type_sound [OF Inr] by (auto simp: writeMail_type_def Let_def result_simps)
  then show ?thesis using utters_forward [OF _ _ _ _ assms(3)] by (simp add: send_new_def Inr)
qed (simp add: send_new_def utters_fault)

lemma utters_unexpected:
  "addToMailQueue m \<Longrightarrow> speaks s None s' \<Longrightarrow> utters s mb (rbind (unexpected m) (\<lambda>e. goto (out @ e) s' m mb k))"
  by (cases "unexpected m") (simp_all add: utters_fault utters_goto)

lemmas utters = utters_fault utters_goto utters_forward utters_send_new utters_unexpected

lemma utters_handlers:
  assumes "queued m" and "mtype m = Some t"
  shows "utters START mb (on_START out t m mb k)" and "utters AUTH mb (on_AUTH out t m mb k)"
    and "utters OPEN mb (on_OPEN out t m mb k)"
  using assms
  by (cases t; cases "mdata m";
      simp add: sound_defs on_START_def on_AUTH_def on_OPEN_def utters)+

lemma utters_with_mail:
  assumes "list_all tidy (incomingMails mb)"
    and h: "\<And>out t m mb. queued m \<Longrightarrow> mtype m = Some t \<Longrightarrow> utters s mb (h out t m mb k)"
  shows "utters s mb (with_mail h mb k)"
proof (cases "incomingMails mb")
  case (Cons m ms)
  let ?mb = "mb\<lparr>incomingMails := ms\<rparr>"
  have same: "posted ?mb u mb' = posted mb u mb'" for u mb' by (cases u) simp_all
  show ?thesis
  proof (cases "announce m")
    case (Inr out)
    show ?thesis
    proof (cases "mtype m")
      case (Some t)
      then have "utters s ?mb (h out t m ?mb k)" using h assms(1) Cons by (simp add: tidy_def)
      then show ?thesis using Inr Cons Some by (simp add: with_mail_def waitMail_def utters_def same)
    qed (simp add: with_mail_def waitMail_def Cons Inr utters_fault)
  qed (simp add: with_mail_def waitMail_def Cons utters_fault)
qed (simp add: with_mail_def waitMail_def utters_fault)

lemma iteration_utters:
  assumes "list_all tidy (incomingMails mb)" and "state fsm = ERROR \<longrightarrow> addToMailQueue (fmail fsm)"
    and "state fsm \<noteq> END"
  shows "utters (state fsm) mb (fsm_iteration fsm mb k)"
  using assms utters_with_mail [OF assms(1)] utters_handlers
  by (cases "state fsm") (auto simp: fsm_iteration_def intro: utters_send_new)

end
