(* ===== verification/Session.thy ===== *)
theory Session
  imports Dialogue
begin

text \<open>
  Whole sessions: what is on the wire in any reachable state of the program, against the
  mails that the state machine has sent. The existentially quantified mails are the history,
  which no component keeps; the invariants relate it to the state of the threads.
\<close>

subsection \<open>Said and heard\<close>

text \<open>The bytes of a mail, and datagrams that are not confirmations.\<close>

definition bytes :: "ProtocolType \<Rightarrow> Mail \<Rightarrow> string" where
  "bytes t m = wire (t = UDP) (the (mtype m)) (mdata m)"

definition is_data :: "string \<Rightarrow> bool" where
  "is_data x \<longleftrightarrow> hd x \<noteq> NUL"

text \<open>Each mail with the number of its retransmissions.\<close>

definition transmissions :: "(Mail \<times> nat) list \<Rightarrow> string list" where
  "transmissions xs = concat (map (\<lambda>(m, n). replicate (Suc n) (bytes UDP m)) xs)"

text \<open>
  The mails that were sent: numbered from 0 modulo 65536, with types that are in the
  language of the state the machine is in.
\<close>

definition dialogue :: "State \<Rightarrow> Mail list \<Rightarrow> bool" where
  "dialogue s ms \<longleftrightarrow> list_all (\<lambda>m. mtype m \<noteq> None) ms \<and> spoken s (map (the \<circ> mtype) ms) \<and>
     map getMessageID ms = map (\<lambda>i. uint (of_nat i :: u16)) [0..<length ms]"

definition said :: "FSM \<Rightarrow> MailBox \<Rightarrow> Mail list \<Rightarrow> bool" where
  "said fsm mb ms \<longleftrightarrow> dialogue (state fsm) (ms @ outgoingMails mb) \<and>
     sequenceUDPNumber mb = of_nat (length (ms @ outgoingMails mb)) \<and> list_all tidy (incomingMails mb) \<and>
     (state fsm = ERROR \<longrightarrow> addToMailQueue (fmail fsm)) \<and> list_all sound (ms @ outgoingMails mb)"

lemma dialogue_posted:
  assumes "dialogue s (ms @ outgoingMails mb)" and "posted mb u mb'" and "speaks s u s'"
    and "sequenceUDPNumber mb = of_nat (length (ms @ outgoingMails mb))" and "list_all sound (ms @ outgoingMails mb)"
  shows "dialogue s' (ms @ outgoingMails mb') \<and> sequenceUDPNumber mb' = of_nat (length (ms @ outgoingMails mb')) \<and>
    list_all sound (ms @ outgoingMails mb')"
proof (cases u)
  case None
  then show ?thesis
    using assms spoken_step [OF _ assms(3)] by (fastforce simp: dialogue_def)
next
  case (Some t)
  with assms(2) obtain m where m: "outgoingMails mb' = outgoingMails mb @ [m]" "mtype m = Some t"
    "sound m" "getMessageID m = uint (sequenceUDPNumber mb)" "sequenceUDPNumber mb' = sequenceUDPNumber mb + 1"
    by auto
  let ?all = "ms @ outgoingMails mb"
  have "spoken s (map (the \<circ> mtype) ?all)" using assms(1) by (simp add: dialogue_def)
  from spoken_step [OF this assms(3)]
  have "spoken s' (map (the \<circ> mtype) (?all @ [m]))" by (simp add: Some m(2))
  moreover have "map getMessageID (?all @ [m]) = map (\<lambda>i. uint (of_nat i :: u16)) [0..<length (?all @ [m])]"
    using assms(1,4) m(4) by (simp add: dialogue_def)
  ultimately show ?thesis using assms(1,4,5) m by (simp add: dialogue_def)
qed

lemma said_turn:
  assumes "said fsm mb ms" and "fsm_iteration fsm mb k = Inr (out, fsm', mb', k')" and "state fsm \<noteq> END"
    and "linked p mb k"
  shows "said fsm' mb' ms"
proof -
  have tidy: "list_all tidy (incomingMails mb)" and err: "state fsm = ERROR \<longrightarrow> addToMailQueue (fmail fsm)"
    using assms(1) by (simp_all add: said_def)
  from iteration_utters [OF tidy err assms(3), of k] assms(2) obtain u where
    u: "speaks (state fsm) u (state fsm')" "posted mb u mb'" "addToMailQueue (fmail fsm')"
    by (auto simp: utters_def)
  have "\<exists>taken. incomingMails mb = taken @ incomingMails mb'"
    using fsm_posts [OF assms(2,4,3)] by (simp add: posts_def)
  then have "list_all tidy (incomingMails mb')" using tidy by auto
  then show ?thesis
    using dialogue_posted [OF _ u(2,1)] assms(1) u(3) unfolding said_def by blast
qed

text \<open>The listener only moves mails from the queue to the wire and adds tidy mails.\<close>

lemma said_move:
  "said fsm mb ms \<Longrightarrow> ms @ outgoingMails mb = ms' @ outgoingMails mb' \<Longrightarrow>
    sequenceUDPNumber mb' = sequenceUDPNumber mb \<Longrightarrow> list_all tidy (incomingMails mb') \<Longrightarrow> said fsm mb' ms'"
  by (simp add: said_def)

lemma said_start: "state fsm = START \<Longrightarrow> said fsm (new_MailBox t p) []"
  by (simp add: said_def dialogue_def new_MailBox_def)

subsection \<open>The grammar of what is sent\<close>

text \<open>
  The datagrams and the lines of a client that keeps to the protocol: their shape byte by
  byte, and the alphabet and the length of every field. A datagram has two bytes of identifier.
\<close>

inductive client_datagram :: "string \<Rightarrow> bool" where
  confirm: "length i = 2 \<Longrightarrow> client_datagram (CHR 0x00 # i)"
| auth: "length i = 2 \<Longrightarrow> u \<in> words_over name_letters 20 \<Longrightarrow> d \<in> words_over (code_points 33 126) 20 \<Longrightarrow>
    s \<in> words_over name_letters 128 \<Longrightarrow>
    client_datagram (CHR 0x02 # i @ u @ CHR 0x00 # d @ CHR 0x00 # s @ [CHR 0x00])"
| join: "length i = 2 \<Longrightarrow> c \<in> words_over (insert CHR ''.'' name_letters) 20 \<Longrightarrow>
    d \<in> words_over (code_points 33 126) 20 \<Longrightarrow> client_datagram (CHR 0x03 # i @ c @ CHR 0x00 # d @ [CHR 0x00])"
| msg: "length i = 2 \<Longrightarrow> d \<in> words_over (code_points 33 126) 20 \<Longrightarrow> t \<in> words_over (code_points 32 126) 1400 \<Longrightarrow>
    client_datagram (CHR 0x04 # i @ d @ CHR 0x00 # t @ [CHR 0x00])"
| err: "length i = 2 \<Longrightarrow> d \<in> words_over (code_points 33 126) 20 \<Longrightarrow> t \<in> words_over (code_points 32 126) 1400 \<Longrightarrow>
    client_datagram (CHR 0xFE # i @ d @ CHR 0x00 # t @ [CHR 0x00])"
| bye: "length i = 2 \<Longrightarrow> client_datagram (CHR 0xFF # i)"

inductive client_line :: "string \<Rightarrow> bool" where
  auth_line: "u \<in> words_over name_letters 20 \<Longrightarrow> d \<in> words_over (code_points 33 126) 20 \<Longrightarrow>
    s \<in> words_over name_letters 128 \<Longrightarrow> client_line (''AUTH '' @ u @ '' AS '' @ d @ '' USING '' @ s @ [CR, LF])"
| join_line: "c \<in> words_over (insert CHR ''.'' name_letters) 20 \<Longrightarrow> d \<in> words_over (code_points 33 126) 20 \<Longrightarrow>
    client_line (''JOIN '' @ c @ '' AS '' @ d @ [CR, LF])"
| msg_line: "d \<in> words_over (code_points 33 126) 20 \<Longrightarrow> t \<in> words_over (code_points 32 126) 1400 \<Longrightarrow>
    client_line (''MSG FROM '' @ d @ '' IS '' @ t @ [CR, LF])"
| err_line: "d \<in> words_over (code_points 33 126) 20 \<Longrightarrow> t \<in> words_over (code_points 32 126) 1400 \<Longrightarrow>
    client_line (''ERR FROM '' @ d @ '' IS '' @ t @ [CR, LF])"
| bye_line: "client_line (''BYE'' @ [CR, LF])"

definition spoken_mail :: "Mail \<Rightarrow> bool" where
  "spoken_mail m \<longleftrightarrow> sound m \<and> mtype m \<in> Some ` {MessageType.AUTH, JOIN, MSG, ERR, BYE}"

lemma id_bytes_length [simp]: "length (id_bytes n) = 2"
  by (simp add: id_bytes_def)

lemma spoken_mail_datagram: "spoken_mail m \<Longrightarrow> client_datagram (bytes UDP m)"
  using client_datagram.bye [OF id_bytes_length]
  by (cases "mdata m")
    (auto simp: spoken_mail_def sound_defs bytes_def wire_udp type_bytes [simplified] valid_words
      intro: client_datagram.intros)

lemma spoken_mail_line: "spoken_mail m \<Longrightarrow> client_line (bytes TCP m)"
  using client_line.intros
  by (cases "mdata m") (auto simp: spoken_mail_def sound_defs bytes_def wire_tcp valid_words)

lemma said_spoken:
  assumes "said fsm mb ms" and "m \<in> set ms"
  shows "spoken_mail m"
proof -
  let ?ms = "ms @ outgoingMails mb"
  have d: "dialogue (state fsm) ?ms" and s: "list_all sound ?ms" using assms(1) by (simp_all add: said_def)
  have "set (map (the \<circ> mtype) ?ms) \<subseteq> {MessageType.AUTH, JOIN, MSG, ERR, BYE}"
    using d spoken_letters unfolding dialogue_def by blast
  moreover have "the (mtype m) \<in> set (map (the \<circ> mtype) ?ms)" "mtype m \<noteq> None"
    using d assms(2) by (auto simp: dialogue_def list_all_iff)
  ultimately have "mtype m \<in> Some ` {MessageType.AUTH, JOIN, MSG, ERR, BYE}" by (metis image_eqI option.collapse subsetD)
  then show ?thesis using s assms(2) by (simp add: spoken_mail_def list_all_iff)
qed

subsection \<open>What the listener leaves alone\<close>

lemma quiet_udp_tidy: "list_all queued ms \<Longrightarrow> list_all tidy ms"
  by (simp add: list_all_iff tidy_def)

lemma udp_incoming_sequence:
  assumes "udp_incoming n m w = Inr w'"
  shows "sequenceUDPNumber (mbox w') = sequenceUDPNumber (mbox w)"
proof (cases "mtype m")
  case (Some t)
  have "t = CONFIRM \<Longrightarrow> \<exists>ref. mdata m = ConfirmMessage ref"
    using assms Some by (cases "mdata m") (auto simp: udp_incoming_def rbind_eq_Inr)
  then show ?thesis
    using assms Some by (cases t) (auto simp: udp_incoming_def rbind_eq_Inr accept_and_confirm_def
      split: if_splits dest!: send_mail_sel)
qed (use assms in \<open>simp add: udp_incoming_def rbind_eq_Inr\<close>)

lemma listenSocket_sequence:
  assumes "listenSocket g inc n w = Inr (b, w')"
  shows "sequenceUDPNumber (mbox w') = sequenceUDPNumber (mbox w)"
  using assms
proof (cases rule: listenSocket_cases)
  case (1 out ok buffer c w1 m)
  then show ?thesis using udp_incoming_sequence [of n m w1 w'] by auto
qed

lemma listenSignal_sequence:
  assumes "listenSignal fd w = Inr (b, w')"
  shows "sequenceUDPNumber (mbox w') = sequenceUDPNumber (mbox w)"
proof -
  from assms obtain ok w1 where c: "clear_pipe ''signal'' fd w = Inr (ok, w1)"
    "sequenceUDPNumber (mbox w') = sequenceUDPNumber (mbox w1)"
    by (auto simp: listenSignal_def rbind_eq_Inr Let_def split: if_splits)
  show ?thesis using clear_pipe_sel [OF c(1)] c(2) by auto
qed

lemma send_next_sequence: "send_next n w = Inr w' \<Longrightarrow> sequenceUDPNumber (mbox w') = sequenceUDPNumber (mbox w)"
  by (auto simp: send_next_def getOutgoingMail_def rbind_eq_Inr Let_def
      split: option.splits list.splits dest!: send_mail_sel)

lemma on_event_sequence:
  assumes "on_event g x w = Inr w'"
  shows "sequenceUDPNumber (mbox w') = sequenceUDPNumber (mbox w)"
proof -
  obtain fd inc n where x: "x = (fd, inc, n)" by (rule prod_cases3)
  show ?thesis
  proof (cases "map_of (fdMap (lst w)) fd")
    case None
    then show ?thesis using assms x by (simp add: on_event_def)
  next
    case (Some t)
    note on = assms [unfolded x on_event_def prod.case Some option.case]
    show ?thesis
    proof (cases t)
      case StdinPipe
      then have "listenStdin fd w = Inr (True, w')"
        using on by (auto simp: checked_def rbind_eq_Inr split: if_splits)
      then show ?thesis using listenStdin_incoming by (auto simp: only_incoming_def)
    next
      case ToSendPipe
      then obtain w1 where "clear_pipe ''send'' fd w = Inr (True, w1)" "send_next n w1 = Inr w'"
        using on by (auto simp: checked_def listenToSendPipe_def rbind_eq_Inr split: if_splits)
      then show ?thesis using send_next_sequence clear_pipe_sel by fastforce
    qed (use on in \<open>auto simp: checked_def rbind_eq_Inr split: if_splits
        dest!: listenSocket_sequence listenSignal_sequence\<close>)
  qed
qed

subsection \<open>Datagrams\<close>

lemma hd_visit: "buffer \<noteq> [] \<Longrightarrow> hd (visit True d buffer) = hd buffer"
  by (cases d) (simp_all add: put_defs)

lemma confirmation_no_data [simp]: "\<not> is_data (confirmation i)"
  by (simp add: is_data_def confirmation_def wire_def put_defs NUL_code code_char_of)

lemma bytes_data: "mtype m = Some t \<Longrightarrow> t \<noteq> CONFIRM \<Longrightarrow> is_data (bytes UDP m)"
  by (cases t) (simp_all add: is_data_def bytes_def wire_def hd_visit NUL_code code_char_of)

lemma bytes_serialize: "mtype m = Some t \<Longrightarrow> serialize (p = UDP) m = Inr (bytes p m)"
  by (simp add: bytes_def serialize_def)

lemma no_data: "\<forall>x \<in> set ps. \<exists>i. x = confirmation i \<Longrightarrow> filter is_data ps = []"
  by (induction ps) auto

lemma transmissions_Nil [simp]: "transmissions [] = []"
  by (simp add: transmissions_def)

lemma transmissions_snoc [simp]:
  "transmissions (xs @ [(m, n)]) = transmissions xs @ replicate (Suc n) (bytes UDP m)"
  by (simp add: transmissions_def)

lemma dialogue_types: "dialogue s ms \<Longrightarrow> m \<in> set ms \<Longrightarrow> \<exists>t. mtype m = Some t \<and> t \<noteq> CONFIRM"
  using spoken_types [of s "map (the \<circ> mtype) ms"] by (force simp: dialogue_def list_all_iff)

subsection \<open>Sessions over UDP\<close>

text \<open>
  \<open>xs\<close> are the mails taken from the queue so far, with the number of retransmissions of each;
  while a confirmation is awaited, the last one is the one that is retransmitted.
\<close>

definition udp_wire :: "int \<Rightarrow> Listener \<Rightarrow> NetworkConnection \<Rightarrow> (Mail \<times> nat) list \<Rightarrow> bool" where
  "udp_wire R l c xs \<longleftrightarrow> filter is_data (conn_payloads c) = transmissions xs \<and>
     (\<forall>x \<in> set (conn_payloads c). is_data x \<or> (\<exists>i. x = confirmation i)) \<and>
     list_all (\<lambda>x. int (snd x) \<le> R) xs \<and> (sentBye l \<longrightarrow> Some BYE \<in> mtype ` fst ` set xs) \<and>
     (\<not> receivedConfirm l \<longrightarrow> (\<exists>ys m n. xs = ys @ [(m, n)] \<and> confMail l = m \<and> int n = retries l))"

text \<open>Events of a turn that are not handled yet: the notification only when it may be handled.\<close>

definition todo_ok :: "int \<Rightarrow> Listener \<Rightarrow> (int \<times> Incoming \<times> int) list \<Rightarrow> bool" where
  "todo_ok fd l evs \<longleftrightarrow> distinct (map fst evs) \<and> (fd \<in> set (map fst evs) \<longrightarrow> receivedConfirm l)"

definition udp_session :: "int \<Rightarrow> System \<Rightarrow> (Mail \<times> nat) list \<Rightarrow> bool" where
  "udp_session R s xs \<longleftrightarrow> udp_inv s \<and> turn_inv (send_pipe s) R (world s) \<and>
     said (machine s) (mbox (world s)) (map fst xs) \<and> udp_wire R (lst (world s)) (conn (world s)) xs \<and>
     todo_ok (read_fd (send_pipe s)) (lst (world s)) (todo s)"

lemma udp_wire_quiet:
  assumes "udp_wire R l c xs" and "same_but_keep l l' \<or> same_but_keep (cleared l) l'"
    and "conn_payloads c' = conn_payloads c @ ps" and "\<forall>x \<in> set ps. \<exists>i. x = confirmation i"
  shows "udp_wire R l' c' xs"
  using assms by (auto simp: udp_wire_def no_data dest!: same_but_keep_sel)

lemma udp_wire_send:
  assumes "udp_wire R l c xs" and "retries l' = 0" and "0 \<le> R" and "confMail l' = m"
    and "conn_payloads c' = conn_payloads c @ [bytes UDP m]" and "is_data (bytes UDP m)"
    and "sentBye l' \<longrightarrow> sentBye l \<or> mtype m = Some BYE"
  shows "udp_wire R l' c' (xs @ [(m, 0)])"
  using assms by (auto simp: udp_wire_def)

lemma udp_wire_resend:
  assumes "udp_wire R l c (ys @ [(m, n)])" and "\<not> receivedConfirm l" and "retries l < R"
    and "retries l' = retries l + 1" and "confMail l' = confMail l"
    and "conn_payloads c' = conn_payloads c @ [bytes UDP m]" and "is_data (bytes UDP m)"
    and "sentBye l' = sentBye l"
  shows "udp_wire R l' c' (ys @ [(m, Suc n)])"
proof -
  have "replicate n (bytes UDP m) @ [bytes UDP m] = replicate (Suc n) (bytes UDP m)"
    by (simp add: replicate_append_same)
  then show ?thesis using assms by (auto simp: udp_wire_def)
qed

lemma udp_wire_settles:
  "udp_wire R (lst w) (conn w) xs \<Longrightarrow> settles p w w' \<Longrightarrow> udp_wire R (lst w') (conn w') xs"
  using settles_sel [of p w w'] by (simp add: udp_wire_def)

lemma todo_ok_tl: "todo_ok fd l (x # evs) \<Longrightarrow> (receivedConfirm l \<longrightarrow> receivedConfirm l') \<Longrightarrow> todo_ok fd l' evs"
  by (auto simp: todo_ok_def)

lemma todo_ok_taken: "todo_ok fd l ((fd, y) # evs) \<Longrightarrow> todo_ok fd l' evs"
  by (simp add: todo_ok_def)

lemma ack_inv_confirmed: "ack_inv R l \<Longrightarrow> receivedConfirm l \<Longrightarrow> retries l = 0 \<and> 0 \<le> R"
  by (simp add: ack_inv_def)

lemma session_event:
  assumes "udp_session R s xs" and t: "todo s = x # rest" and ev: "on_event g x (world s) = Inr w"
    and inv': "udp_inv (s\<lparr>world := w, todo := rest\<rparr>)"
  shows "\<exists>ys. udp_session R (s\<lparr>world := w, todo := rest\<rparr>) ys"
proof -
  let ?w = "world s" and ?fd = "read_fd (send_pipe s)"
  have inv: "turn_inv (send_pipe s) R ?w" and said: "said (machine s) (mbox ?w) (map fst xs)"
    and wire: "udp_wire R (lst ?w) (conn ?w) xs" and todo: "todo_ok ?fd (lst ?w) (x # rest)"
    using assms(1) t by (simp_all add: udp_session_def)
  note seq = on_event_sequence [OF ev] and i = on_event_inv [OF inv ev]
  have tidy: "list_all tidy (incomingMails (mbox w))"
    using inv' by (auto simp: udp_inv_def intro: quiet_udp_tidy)
  have "silent ?w w \<or> fst x = ?fd \<and> (\<exists>m. sends m ?w w \<and> sends_udp m ?w w)"
    using on_event_silent [OF inv ev] on_event_notify [OF inv ev] by (auto simp: getReadFd_def)
  then consider "silent ?w w" | m where "fst x = ?fd" "sends m ?w w" "sends_udp m ?w w" by blast
  then show ?thesis
  proof cases
    case 1
    then have "quiet ?w w" and out: "outgoingMails (mbox w) = outgoingMails (mbox ?w)"
      using silent_outgoing by (auto simp: silent_def)
    moreover obtain ps where "conn_payloads (conn w) = conn_payloads (conn ?w) @ ps"
      "\<forall>x \<in> set ps. \<exists>i. x = confirmation i" using 1 unfolding silent_def by blast
    ultimately have "udp_wire R (lst w) (conn w) xs" "receivedConfirm (lst ?w) \<longrightarrow> receivedConfirm (lst w)"
      using udp_wire_quiet [OF wire] quiet_sel [of ?w w] by (auto simp: quiet_def)
    moreover have "said (machine s) (mbox w) (map fst xs)"
      by (rule said_move [OF said]) (simp_all add: out seq tidy)
    ultimately show ?thesis
      using inv' i todo_ok_tl [OF todo] by (intro exI [of _ xs]) (simp add: udp_session_def)
  next
    case (2 m)
    have rc: "receivedConfirm (lst ?w)" using todo 2(1) by (simp add: todo_ok_def)
    have out: "outgoingMails (mbox ?w) = m # outgoingMails (mbox w)" using 2(2) by (simp add: sends_def)
    then obtain ty where m: "mtype m = Some ty" "ty \<noteq> CONFIRM"
      using said dialogue_types [of "state (machine s)" _ m] by (fastforce simp: said_def)
    have proto: "protocolType (lst ?w) = UDP" "retries (lst ?w) = 0" "0 \<le> R"
      using inv rc ack_inv_confirmed by (auto simp: turn_inv_def udp_world_def)
    then have "confMail (lst w) = m" "retries (lst w) = 0" "sentBye (lst w) \<longrightarrow> sentBye (lst ?w) \<or> mtype m = Some BYE"
      using 2(2) note_sent_udp [of "(lst ?w)\<lparr>sentBye := _, keepRunning := _\<rparr>" m] by (auto simp: sends_def)
    then have "udp_wire R (lst w) (conn w) (xs @ [(m, 0)])"
      using udp_wire_send [OF wire _ proto(3)] bytes_data [OF m] 2(3) bytes_serialize [OF m(1), of UDP]
      by (simp add: sends_udp_def)
    moreover have "said (machine s) (mbox w) (map fst (xs @ [(m, 0)]))"
      by (rule said_move [OF said]) (simp_all add: out seq tidy)
    moreover have "todo_ok ?fd (lst w) rest" using todo_ok_taken todo 2(1) by (metis prod.collapse)
    ultimately show ?thesis
      using inv' i by (intro exI [of _ "xs @ [(m, 0)]"]) (simp add: udp_session_def)
  qed
qed

lemma session_idle:
  assumes s: "udp_session R s xs" and t: "todo s = []" and g: "loop_guard (lst (world s))" "possible e (world s)"
    and nr: "\<forall>events. wake e \<noteq> Ready events" and turn: "listener_turn g e (world s) = Inr w"
    and inv': "udp_inv (set_world w s)"
  shows "\<exists>ys. udp_session R (set_world w s) ys"
proof -
  let ?w = "world s"
  have inv: "turn_inv (send_pipe s) R ?w" and said: "said (machine s) (mbox ?w) (map fst xs)"
    and wire: "udp_wire R (lst ?w) (conn ?w) xs"
    using s by (simp_all add: udp_session_def)
  have step: "turn_step g ?w w" using g turn by (rule turn_step.turn)
  note i = turn_step_inv [OF inv step]
  obtain tm w1 where b: "begin_turn e ?w = Inr (tm, w1)" "after_wait g e w1 = Inr w"
    using turn by (auto simp: listener_turn_Inr turn_body_def rbind_eq_Inr)
  have n: "notified s" using s by (simp add: udp_session_def udp_inv_def)
  have st: "settles (send_pipe s) ?w w1" using begin_turn_notified [OF n b(1)] by blast
  note sel = settles_sel [OF st] and wire1 = udp_wire_settles [OF wire st]
  have todo: "todo_ok (read_fd (send_pipe s)) l []" for l by (simp add: todo_ok_def)
  show ?thesis
  proof (cases "wake e")
    case Interrupted
    then show ?thesis using b(2) wire1 sel said inv' i t todo
      by (intro exI [of _ xs]) (simp add: udp_session_def after_wait_def set_world_def)
  next
    case Timed_out
    have "\<not> receivedConfirm (lst ?w)"
    proof
      assume "receivedConfirm (lst ?w)"
      then have "tm = -1" using turn_settled [OF inv, of g e] begin_turn_settles [of "send_pipe s" ?w _ e] b(1) n
        by (auto simp: notified_def)
      then show False using g(2) b(1) Timed_out by (simp add: possible_def allowed_def)
    qed
    then have nc: "\<not> receivedConfirm (lst w1)" using sel by simp
    then obtain ys m k where xs: "xs = ys @ [(m, k)]" "confMail (lst w1) = m"
      using wire1 by (auto simp: udp_wire_def)
    have "m \<in> set (map fst xs @ outgoingMails (mbox ?w))" using xs by simp
    then obtain ty where ty: "mtype m = Some ty" "ty \<noteq> CONFIRM"
      using said dialogue_types unfolding said_def by blast
    have "on_timeout (t_reset e) (n_resend e) w1 = Inr w" using b(2) Timed_out by (simp add: after_wait_def)
    note r = on_timeout_resends [OF settles_inv [OF inv st] this]
    have mb: "mbox w = mbox ?w" using r sel by (simp add: resends_def)
    from r have "\<exists>b. serialize True m = Inr b \<and> conn_payloads (conn w) = conn_payloads (conn w1) @ [b]"
      using xs(2) by (auto simp: resends_def)
    then have "conn_payloads (conn w) = conn_payloads (conn w1) @ [bytes UDP m]"
      using bytes_serialize [OF ty(1), of UDP] by auto
    moreover have "retries (lst w) = retries (lst w1) + 1" "confMail (lst w) = confMail (lst w1)"
      using r by (auto simp: resends_def)
    moreover have "sentBye (lst w) = sentBye (lst w1)" using r by (auto simp: resends_def)
    ultimately have "udp_wire R (lst w) (conn w) (ys @ [(m, Suc k)])"
      using udp_wire_resend wire1 nc r bytes_data [OF ty] unfolding xs(1) by blast
    then show ?thesis using said inv' i t todo mb xs(1)
      by (intro exI [of _ "ys @ [(m, Suc k)]"]) (simp add: udp_session_def set_world_def)
  next
    case (Ready events)
    then show ?thesis using nr by simp
  qed
qed

lemma session_poll:
  assumes s: "udp_session R s xs" and g: "possible e (world s)"
    and b: "begin_turn e (world s) = Inr (t, w)" and r: "wake e = Ready events"
    and inv': "udp_inv (s\<lparr>world := w, todo := events\<rparr>)"
  shows "udp_session R (s\<lparr>world := w, todo := events\<rparr>) xs"
proof -
  have n: "notified s" using s by (simp add: udp_session_def udp_inv_def)
  have st: "settles (send_pipe s) (world s) w" using begin_turn_notified [OF n b] by blast
  note sel = settles_sel [OF st]
  have ok: "distinct (map fst events)" "set (map fst events) \<subseteq> set (interest (lst w))"
    using g b r by (simp_all add: possible_def allowed_def)
  then have "read_fd (send_pipe s) \<in> set (map fst events) \<Longrightarrow> receivedConfirm (lst w)"
    using sel unfolding getReadFd_def by blast
  then have "todo_ok (read_fd (send_pipe s)) (lst w) events" using ok(1) by (simp add: todo_ok_def)
  then show ?thesis
    using s inv' sel udp_wire_settles [OF _ st] settles_inv [OF _ st] by (simp add: udp_session_def)
qed

lemma session_step:
  assumes s: "udp_session R s xs" and step: "sys_step g s s'"
  shows "\<exists>ys. udp_session R s' ys"
proof -
  have ui: "udp_inv s" and inv: "turn_inv (send_pipe s) R (world s)"
    and said: "said (machine s) (mbox (world s)) (map fst xs)"
    using s by (simp_all add: udp_session_def)
  have ui': "udp_inv s'" using step_udp [OF ui step] .
  have n: "notified s" using ui by (simp add: udp_inv_def)
  from step show ?thesis
  proof (cases rule: sys_step_cases)
    case (fsm_turn out m mb k)
    have p: "posts (send_pipe s) (mbox (world s)) (kernel (world s)) mb k"
      using fsm_posts [OF fsm_turn(3) notified_linked [OF n] fsm_turn(2)] by simp
    have "turn_inv (send_pipe s) R (print out ((world s)\<lparr>mbox := mb, kernel := k\<rparr>))"
      by (rule turn_inv_same [OF inv]) (use p in \<open>simp_all add: posts_def\<close>)
    moreover have "said m mb (map fst xs)"
      using said_turn [OF said fsm_turn(3,2) notified_linked [OF n]] .
    ultimately show ?thesis using s ui' fsm_turn(1) by (intro exI [of _ xs]) (simp add: udp_session_def)
  next
    case (poll e t w events)
    then show ?thesis using session_poll [OF s poll(4-6)] ui' by auto
  next
    case (idle e w)
    then show ?thesis using session_idle [OF s idle(2-6)] ui' by simp
  next
    case (event x rest w)
    then show ?thesis using session_event [OF s event(2,3)] ui' by simp
  next
    case (typed_line line k)
    then show ?thesis using s ui' turn_inv_same [OF inv]
      by (intro exI [of _ xs]) (simp add: udp_session_def set_world_def)
  next
    case (signal k)
    then show ?thesis using s ui' turn_inv_same [OF inv]
      by (intro exI [of _ xs]) (simp add: udp_session_def set_world_def)
  next
    case stop
    have "turn_inv (send_pipe s) R ((world s)\<lparr>lst := (lst (world s))\<lparr>keepRunning := False\<rparr>\<rparr>)"
      using inv by (simp add: turn_inv_def wired_def udp_world_def ack_inv_def)
    then show ?thesis using s ui' stop(1)
      by (intro exI [of _ xs]) (simp add: udp_session_def set_world_def udp_wire_def todo_ok_def)
  qed
qed

subsection \<open>The start of a session\<close>

lemma registerFds_interest:
  assumes "registerFds l = Inr l'"
  shows "\<exists>i. l' = l\<lparr>interest := i\<rparr>"
proof (rule rfold_inv [where P = "\<lambda>l'. \<exists>i. l' = l\<lparr>interest := i\<rparr>", OF assms [unfolded registerFds_def]])
  show "\<exists>i. l = l\<lparr>interest := i\<rparr>" by (rule exI [of _ "interest l"]) simp
qed (auto simp: registerFd_def split: if_splits)

lemma set_up_fresh:
  assumes "set_up g connected type args k = Inr s"
  shows "conn_payloads (conn (world s)) = [] \<and> receivedConfirm (lst (world s)) \<and> keepRunning (lst (world s)) \<and>
    \<not> sentBye (lst (world s)) \<and> protocolType (lst (world s)) = type"
proof -
  obtain sock k1 where k1: "sys_socket k = (sock, k1)" by fastforce
  from assms obtain c sockfd p1 k2 p2 k3 p3 k4 l where
      o: "conn_openConnection g sock connected (new_NetworkConnection type (arg_ip args) (arg_port args)
        (arg_timeout args) (ucast (arg_retries args))) = Inr (True, c)"
    and p: "new_Pipe StdinPipe k1 = Inr (p1, k2)" "new_Pipe ToSendPipe k2 = Inr (p2, k3)"
      "new_Pipe SignalPipe k3 = Inr (p3, k4)"
    and gl: "guarded (registerFds (main_listener (getReadFd p1) sockfd (getReadFd p2) (getReadFd p3) type)) = Inr l"
    and s: "lst (world s) = l" "conn (world s) = c"
    by (auto simp: set_up_def k1 rbind_eq_Inr split: if_splits)
  have l: "registerFds (main_listener (getReadFd p1) sockfd (getReadFd p2) (getReadFd p3) type) = Inr l"
    using gl by (simp add: guarded_def split: sum.splits fault.splits)
  have "conn_payloads c = []"
    using o by (cases type)
      (auto simp: conn_openConnection_def new_NetworkConnection_def new_TcpProtocol_def new_UdpProtocol_def
        tcp_openConnection_def udp_openConnection_def createSocket_defs rbind_eq_Inr conn_payloads_def
        tcp_connectToServer_def udp_connectToServer_def split: if_splits option.splits)
  moreover obtain i where "l = (main_listener (getReadFd p1) sockfd (getReadFd p2) (getReadFd p3) type)\<lparr>interest := i\<rparr>"
    using registerFds_interest [OF l] by blast
  ultimately show ?thesis using s by (simp add: main_listener_def addFd_def new_Listener_def)
qed

lemma start_session:
  assumes "udp_start g s"
  shows "\<exists>R xs. udp_session R s xs"
proof -
  have ui: "udp_inv s" using start_udp [OF assms] .
  have "sys_start g s" "delivery_service (mbox (world s)) = UDP" using assms by (simp_all add: udp_start_def)
  moreover obtain connected type args k where k: "sane_kernel k" "set_up g connected type args k = Inr s"
    using sys_start_set_up calculation(1) .
  note sh = set_up_shape [OF k(2,1)] and fr = set_up_fresh [OF k(2)]
  obtain R where "turn_inv (send_pipe s) R (world s)" using ui by (auto simp: udp_inv_def listener_ok_def)
  moreover have "said (machine s) (mbox (world s)) []"
    using sh said_start [of "machine s"] by (simp add: new_FSM_def)
  moreover have "udp_wire R (lst (world s)) (conn (world s)) []" using fr by (simp add: udp_wire_def)
  moreover have "todo_ok (read_fd (send_pipe s)) (lst (world s)) (todo s)" using sh by (simp add: todo_ok_def)
  ultimately show ?thesis using ui by (intro exI [of _ R] exI [of _ "[]"]) (simp add: udp_session_def)
qed

definition udp_session_inv :: "System \<Rightarrow> bool" where
  "udp_session_inv s \<longleftrightarrow> (\<exists>R xs. udp_session R s xs)"

interpretation udp_sessions: step_invariant "udp_start g" "sys_step g" udp_session_inv for g
proof
  show "udp_session_inv s" if "udp_start g s" for s using start_session [OF that] by (simp add: udp_session_inv_def)
  show "udp_session_inv t" if s: "udp_session_inv s" and step: "sys_step g s t" for s t
  proof -
    obtain R xs where "udp_session R s xs" using s by (auto simp: udp_session_inv_def)
    from session_step [OF this step] show ?thesis by (auto simp: udp_session_inv_def)
  qed
qed

subsection \<open>Properties of sessions over UDP\<close>

lemma udp_reach:
  assumes "reach (udp_start g) (sys_step g) s"
  obtains R xs where "udp_session R s xs"
  using udp_sessions.reach_inv [OF assms] by (auto simp: udp_session_inv_def)

text \<open>
  C1. What is on the wire over UDP, in every reachable state of the program with all its threads:
  apart from confirmations, the datagrams sent are some mails in order, each repeated at most
  as often as the retry limit allows, and these mails followed by the ones still queued are
  numbered 0, 1, 2 and so on modulo 65536, with types that the protocol allows up to the
  state of the machine: first AUTH, then messages and joins, then at most one ERR, and BYE
  last. No mail is lost, reordered or sent before its turn.
\<close>

theorem udp_wire_is_dialogue:
  assumes "reach (udp_start g) (sys_step g) s"
  shows "\<exists>R xs. retry_limit (conn (world s)) = Some R \<and>
    filter is_data (conn_payloads (conn (world s))) = transmissions xs \<and>
    list_all (\<lambda>x. int (snd x) \<le> R) xs \<and>
    dialogue (state (machine s)) (map fst xs @ outgoingMails (mbox (world s)))"
proof -
  obtain R xs where "udp_session R s xs" using udp_reach [OF assms] .
  then show ?thesis
    by (intro exI [of _ R] exI [of _ xs]) (simp add: udp_session_def udp_wire_def said_def turn_inv_def)
qed

lemma demo_reach: "\<exists>s. reach (udp_start demo_hosts) (sys_step demo_hosts) s \<and> state (machine s) = START"
proof -
  obtain s where s: "runMain_setup demo_hosts 0 ''chat'' demo_argv fresh_kernel = Inr s"
    "delivery_service (mbox (world s)) = UDP" using demo_runs by blast
  then have st: "udp_start demo_hosts s" using fresh_sane by (auto simp: udp_start_def sys_start_def)
  then obtain connected type args k where "sane_kernel k" "set_up demo_hosts connected type args k = Inr s"
    by (auto simp: udp_start_def elim: sys_start_set_up)
  then have "machine s = new_FSM START" using set_up_shape by blast
  then have "state (machine s) = START" by (simp add: new_FSM_def)
  moreover have "reach (udp_start demo_hosts) (sys_step demo_hosts) s" by (rule reach_start) (rule st)
  ultimately show ?thesis by blast
qed

theorem udp_wire_is_dialogue_witness:
  "\<exists>(s :: System) xs. filter is_data (conn_payloads (conn (world s))) = transmissions xs \<and>
    dialogue START (map fst xs @ outgoingMails (mbox (world s)))"
proof -
  obtain s where s: "reach (udp_start demo_hosts) (sys_step demo_hosts) s" "state (machine s) = START"
    using demo_reach by blast
  from udp_wire_is_dialogue [OF s(1)] show ?thesis unfolding s(2) by blast
qed

lemma transmissions_bytes: "x \<in> set (transmissions xs) \<Longrightarrow> \<exists>m \<in> set (map fst xs). x = bytes UDP m"
  by (force simp: transmissions_def split: if_splits)

lemma hd_bytes: "mtype m = Some t \<Longrightarrow> hd (bytes UDP m) = char_of (type_code t)"
  by (simp add: bytes_def wire_def hd_visit)

text \<open>
  C4. Until the server has accepted the user, the program puts nothing but authentication requests
  and confirmations on the wire, and before the first \<open>/auth\<close> nothing but confirmations: in
  every reachable state in which the machine is still in AUTH or START, whatever the other
  threads do.
\<close>

theorem only_auth_before_open:
  assumes "reach (udp_start g) (sys_step g) s" and "state (machine s) \<in> {START, AUTH}"
    and "x \<in> set (conn_payloads (conn (world s)))"
  shows "hd x = CHR 0x00 \<or> hd x = CHR 0x02 \<and> state (machine s) = AUTH"
proof (cases "is_data x")
  case True
  obtain R xs where u: "udp_session R s xs" using udp_reach [OF assms(1)] .
  let ?ms = "map fst xs @ outgoingMails (mbox (world s))"
  have d: "dialogue (state (machine s)) ?ms" and w: "filter is_data (conn_payloads (conn (world s))) = transmissions xs"
    using u by (simp_all add: udp_session_def udp_wire_def said_def)
  have "x \<in> set (filter is_data (conn_payloads (conn (world s))))" using True assms(3) by simp
  then have "x \<in> set (transmissions xs)" unfolding w .
  then obtain m where m: "m \<in> set ?ms" "x = bytes UDP m" using transmissions_bytes by fastforce
  obtain t where t: "mtype m = Some t" using dialogue_types [OF d m(1)] by blast
  have "t \<in> set (map (the \<circ> mtype) ?ms)" using m(1) t by force
  moreover have "spoken (state (machine s)) (map (the \<circ> mtype) ?ms)" using d by (simp add: dialogue_def)
  ultimately have "t = MessageType.AUTH \<and> state (machine s) = AUTH"
    using assms(2) by (auto simp: list_all_iff simp del: map_append set_map)
  then show ?thesis using hd_bytes [OF t] m(2) type_bytes(3) by simp
qed (simp add: is_data_def)

theorem only_auth_before_open_witness:
  "\<exists>s. reach (udp_start demo_hosts) (sys_step demo_hosts) s \<and>
    (\<forall>x \<in> set (conn_payloads (conn (world s))). hd x = CHR 0x00)"
proof -
  obtain s where s: "reach (udp_start demo_hosts) (sys_step demo_hosts) s" "state (machine s) = START"
    using demo_reach by blast
  have "\<forall>x \<in> set (conn_payloads (conn (world s))). hd x = CHR 0x00"
    using only_auth_before_open [OF s(1)] s(2) by auto
  with s(1) show ?thesis by blast
qed

end
