(* ===== verification/Session_Tcp.thy ===== *)
theory Session_Tcp
  imports Session
begin

text \<open>
  Sessions over TCP: what an event of the listener does, the invariant of the program, in which
  every mail the machine sends is one line on the wire, in order and once, and the grammar of
  the lines.
\<close>

subsection \<open>Events over TCP\<close>

definition tcp_world :: "World \<Rightarrow> bool" where
  "tcp_world w \<longleftrightarrow> protocolType (lst w) = TCP \<and> delivery_service (mbox w) = TCP \<and> conn_of TCP (conn w) \<and>
     receivedConfirm (lst w)"

text \<open>The parts of a mailbox that only the state machine and \<open>getOutgoingMail\<close> change.\<close>

definition same_post :: "MailBox \<Rightarrow> MailBox \<Rightarrow> bool" where
  "same_post mb mb' \<longleftrightarrow> sequenceUDPNumber mb' = sequenceUDPNumber mb \<and> delivery_service mb' = delivery_service mb \<and>
     (list_all tidy (incomingMails mb) \<longrightarrow> list_all tidy (incomingMails mb'))"

definition hushed :: "World \<Rightarrow> World \<Rightarrow> bool" where
  "hushed w w' \<longleftrightarrow> (\<exists>k. lst w' = (lst w)\<lparr>keepRunning := k\<rparr> \<and> (k \<longrightarrow> keepRunning (lst w))) \<and>
     same_post (mbox w) (mbox w') \<and> outgoingMails (mbox w') = outgoingMails (mbox w) \<and>
     conn_of TCP (conn w') \<and> conn_payloads (conn w') = conn_payloads (conn w)"

definition says :: "Mail \<Rightarrow> World \<Rightarrow> World \<Rightarrow> bool" where
  "says m w w' \<longleftrightarrow> same_post (mbox w) (mbox w') \<and> outgoingMails (mbox w) = m # outgoingMails (mbox w') \<and>
     lst w' = (if mtype m = Some BYE then (lst w)\<lparr>sentBye := True, keepRunning := False\<rparr> else lst w) \<and>
     conn_of TCP (conn w') \<and> conn_payloads (conn w') = conn_payloads (conn w) @ [bytes TCP m]"

lemma same_keep: "\<exists>k. l = l\<lparr>keepRunning := k\<rparr> \<and> (k \<longrightarrow> keepRunning l)"
  by (rule exI [of _ "keepRunning l"]) simp

lemma hushed_kernel: "conn_of TCP (conn w) \<Longrightarrow> hushed w (w\<lparr>kernel := k\<rparr>)"
  using same_keep [of "lst w"] by (simp add: hushed_def same_post_def)

lemma hushed_only_incoming: "only_incoming w w' \<Longrightarrow> conn_of TCP (conn w) \<Longrightarrow> hushed w w'"
  using same_keep [of "lst w"] by (auto simp: hushed_def same_post_def only_incoming_def quiet_udp_tidy)

lemma tcp_mail_tidy:
  assumes "writeTCPMail seq buffer default_Mail = Inr (out, b, m)" and "addToMailQueue m"
  shows "tidy m"
  using writeTCPMail_sound [OF assms(1)] assms(2) by (auto simp: tidy_def queued_def split: if_splits)

lemma listenSocket_tcp:
  assumes "listenSocket g inc n w = Inr (b, w')" and "tcp_world w"
  shows "hushed w w'"
proof -
  from assms obtain out out' ok buffer c written m where
    rd: "receiveData g inc zero_buffer (conn w) = Inr (out, ok, buffer, c)"
    and wr: "writeTCPMail (sequenceUDPNumber (mbox w)) buffer default_Mail = Inr (out', written, m)"
    and w': "w' = deliver m (if \<not> written then print [Stderr (''Failed to write mail from socket'' @ [LF])]
      ((print (out @ out') (w\<lparr>conn := c\<rparr>))\<lparr>lst := (lst w)\<lparr>keepRunning := False\<rparr>\<rparr>)
      else print (out @ out') (w\<lparr>conn := c\<rparr>))"
    by (auto simp: listenSocket_def rbind_eq_Inr tcp_world_def writeMail_buffer_def Let_def split: if_splits)
  have c: "conn_of TCP c" "conn_payloads c = conn_payloads (conn w)"
    using receiveData_conn [OF _ rd] assms(2) by (auto simp: tcp_world_def)
  have "addToMailQueue m \<Longrightarrow> tidy m" using tcp_mail_tidy [OF wr] .
  then show ?thesis using c same_keep [of "lst w"] unfolding w' by (auto simp: hushed_def same_post_def)
qed

lemma listenSignal_hushed:
  assumes "listenSignal fd w = Inr (b, w')" and "conn_of TCP (conn w)"
  shows "hushed w w'"
proof -
  from assms(1) obtain ok w1 where c: "clear_pipe ''signal'' fd w = Inr (ok, w1)"
    and r: "if ok then \<exists>m. writeMail_type ERR default_Mail (-1) (mbox w1) = Inr m \<and>
      w' = (deliver (m\<lparr>sigint := True\<rparr>) w1)\<lparr>lst := (lst w1)\<lparr>keepRunning := False\<rparr>\<rparr> else w' = w1"
    by (auto simp: listenSignal_def rbind_eq_Inr Let_def split: if_splits)
  obtain k where k: "w1 = w\<lparr>kernel := k\<rparr>" using clear_pipe_sel [OF c] by blast
  show ?thesis
  proof (cases ok)
    case True
    with r obtain m where m: "writeMail_type ERR default_Mail (-1) (mbox w1) = Inr m"
      "w' = (deliver (m\<lparr>sigint := True\<rparr>) w1)\<lparr>lst := (lst w1)\<lparr>keepRunning := False\<rparr>\<rparr>" by auto
    have "tidy (m\<lparr>sigint := True\<rparr>)"
      using writeMail_type_sound [OF m(1)] by (simp add: tidy_def queued_def sound_def typed_def)
    then show ?thesis using assms(2) unfolding m(2) k by (auto simp: hushed_def same_post_def)
  qed (use r k assms(2) hushed_kernel in simp)
qed

lemma send_next_says:
  assumes "send_next n w = Inr w'" and "tcp_world w"
  shows "\<exists>m. says m w w'"
proof -
  from assms(1) obtain m rest t w1 where m: "outgoingMails (mbox w) = m # rest" "mtype m = Some t"
    and s: "send_mail n m (w\<lparr>mbox := (mbox w)\<lparr>outgoingMails := rest\<rparr>,
        lst := if t = BYE then (lst w)\<lparr>sentBye := True, keepRunning := False\<rparr> else lst w\<rparr>) = Inr w1"
    and w': "w' = w1\<lparr>lst := note_sent m (lst w1)\<rparr>"
    by (auto simp: send_next_def getOutgoingMail_def rbind_eq_Inr Let_def
        split: list.splits option.splits)
  note sel = send_mail_sel [OF s]
  from s obtain c where c: "sendData n m (conn w) = Inr c" "conn w1 = c"
    by (auto simp: send_mail_def rbind_eq_Inr)
  have "conn_of TCP (conn w)" "protocolType (lst w1) = TCP" using assms(2) sel by (auto simp: tcp_world_def)
  then have "says m w w'"
    using sendData_conn [OF _ c(1), of TCP] bytes_serialize [OF m(2), of TCP] m c(2) sel
    by (auto simp: says_def same_post_def w' note_sent_def)
  then show ?thesis ..
qed

lemma on_event_tcp:
  assumes "on_event g (fd, inc, n) w = Inr w'" and "tcp_world w"
  shows "hushed w w' \<or> (\<exists>m. says m w w')"
proof (cases "map_of (fdMap (lst w)) fd")
  case None
  then show ?thesis using assms hushed_kernel [of w "kernel w"] by (simp add: on_event_def tcp_world_def)
next
  case (Some t)
  have c: "conn_of TCP (conn w)" using assms(2) by (simp add: tcp_world_def)
  note on = assms(1) [unfolded on_event_def prod.case Some option.case]
  show ?thesis
  proof (cases t)
    case StdinPipe
    then have "listenStdin fd w = Inr (True, w')"
      using on by (auto simp: checked_def rbind_eq_Inr split: if_splits)
    then show ?thesis using listenStdin_incoming hushed_only_incoming c by blast
  next
    case ToSendPipe
    then obtain w1 k where w1: "w1 = w\<lparr>kernel := k\<rparr>" "send_next n w1 = Inr w'"
      using on by (auto simp: checked_def listenToSendPipe_def rbind_eq_Inr split: if_splits dest: clear_pipe_sel)
    then obtain m where "says m w1 w'" using send_next_says [OF w1(2)] assms(2) by (auto simp: tcp_world_def)
    then have "says m w w'" using w1(1) by (simp add: says_def)
    then show ?thesis by blast
  qed (use on c assms(2) in \<open>auto simp: checked_def rbind_eq_Inr split: if_splits
      dest: listenSocket_tcp listenSignal_hushed\<close>)
qed

subsection \<open>Sessions over TCP\<close>

definition tcp_session :: "System \<Rightarrow> Mail list \<Rightarrow> bool" where
  "tcp_session s ms \<longleftrightarrow> notified s \<and> tcp_world (world s) \<and> said (machine s) (mbox (world s)) ms \<and>
     conn_payloads (conn (world s)) = map (bytes TCP) ms \<and>
     (sentBye (lst (world s)) \<longleftrightarrow> Some BYE \<in> set (map mtype ms)) \<and>
     (sentBye (lst (world s)) \<longrightarrow> \<not> keepRunning (lst (world s)))"

lemma said_post:
  assumes "said fsm mb ms" and "same_post mb mb'" and "ms @ outgoingMails mb = ms' @ outgoingMails mb'"
  shows "said fsm mb' ms'"
  by (rule said_move [OF assms(1,3)]) (use assms(1,2) in \<open>simp_all add: same_post_def said_def\<close>)

lemma tcp_hushed:
  assumes s: "tcp_session s ms" and q: "hushed (world s) w" and n: "notified (s\<lparr>world := w, todo := evs\<rparr>)"
  shows "tcp_session (s\<lparr>world := w, todo := evs\<rparr>) ms"
proof -
  have "said (machine s) (mbox w) ms"
    by (rule said_post [of _ "mbox (world s)"]) (use s q in \<open>simp_all add: tcp_session_def hushed_def\<close>)
  then show ?thesis
    using s q n by (auto simp: tcp_session_def hushed_def tcp_world_def same_post_def)
qed

lemma tcp_says:
  assumes s: "tcp_session s ms" and q: "says m (world s) w" and n: "notified (s\<lparr>world := w, todo := evs\<rparr>)"
  shows "tcp_session (s\<lparr>world := w, todo := evs\<rparr>) (ms @ [m])"
proof -
  have "said (machine s) (mbox w) (ms @ [m])"
    by (rule said_post [of _ "mbox (world s)" ms]) (use s q in \<open>simp_all add: tcp_session_def says_def\<close>)
  then show ?thesis
    using s q n by (auto simp: tcp_session_def says_def tcp_world_def same_post_def)
qed

lemma settles_tcp:
  assumes "settles p w w'" and "tcp_world w"
  shows "tcp_world w'"
proof -
  have "protocolType (lst w') = protocolType (lst w)" using assms(1) by (auto simp: settles_def)
  then show ?thesis using assms(2) settles_sel [OF assms(1)] by (simp add: tcp_world_def)
qed

lemma tcp_settles:
  assumes "tcp_session s ms" and "settles (send_pipe s) (world s) w" and "notified (s\<lparr>world := w, todo := evs\<rparr>)"
  shows "tcp_session (s\<lparr>world := w, todo := evs\<rparr>) ms"
  using assms settles_tcp [OF assms(2)] settles_sel [OF assms(2)] by (simp add: tcp_session_def)

text \<open>Over TCP no confirmation is awaited, so the time cannot run out.\<close>

lemma tcp_no_timeout:
  assumes "wired p w" and "tcp_world w" and "possible e w"
  shows "wake e \<noteq> Timed_out"
proof -
  obtain c where "conn w = Some c" using assms(2) by (auto simp: tcp_world_def conn_of_def split: option.splits)
  from begin_turn_settles [OF assms(1) this, of e] obtain t w3
    where "begin_turn e w = Inr (t, w3)" "t = -1" using assms(2) by (auto simp: tcp_world_def)
  then show ?thesis using assms(3) by (auto simp: possible_def allowed_def)
qed

lemma tcp_step:
  assumes s: "tcp_session s ms" and step: "sys_step g s s'"
  shows "\<exists>ms'. tcp_session s' ms'"
proof -
  let ?w = "world s"
  have n: "notified s" and tw: "tcp_world ?w" and said: "said (machine s) (mbox ?w) ms"
    using s by (simp_all add: tcp_session_def)
  have wd: "wired (send_pipe s) ?w" using n by (simp add: notified_def)
  have n': "notified s'" using step_notified [OF n step] .
  from step show ?thesis
  proof (cases rule: sys_step_cases)
    case (fsm_turn out m mb k)
    note linked = notified_linked [OF n]
    have "posts (send_pipe s) (mbox ?w) (kernel ?w) mb k"
      using fsm_posts [OF fsm_turn(3) linked fsm_turn(2)] by simp
    moreover have "said m mb ms" using said_turn [OF said fsm_turn(3,2) linked] .
    ultimately show ?thesis using s n' fsm_turn(1)
      by (intro exI [of _ ms]) (simp add: tcp_session_def tcp_world_def posts_def)
  next
    case (poll e t w events)
    have "settles (send_pipe s) ?w w" using begin_turn_notified [OF n poll(5)] by blast
    then show ?thesis using tcp_settles [OF s] n' unfolding poll(1) by blast
  next
    case (idle e w)
    have "wake e = Interrupted" using tcp_no_timeout [OF wd tw idle(4)] idle(5) by (cases "wake e") auto
    with idle(6) obtain t where t: "begin_turn e ?w = Inr (t, w)"
      by (auto simp: listener_turn_Inr turn_body_def after_wait_def rbind_eq_Inr)
    then have "settles (send_pipe s) ?w w" using begin_turn_notified [OF n t] by blast
    moreover have "set_world w s = s\<lparr>world := w, todo := todo s\<rparr>" by (simp add: set_world_def)
    ultimately show ?thesis using tcp_settles [OF s] n' unfolding idle(1) by metis
  next
    case (event x rest w)
    obtain fd inc k where x: "x = (fd, inc, k)" by (rule prod_cases3)
    from on_event_tcp [OF event(3) [unfolded x] tw] show ?thesis
      using tcp_hushed [OF s] tcp_says [OF s] n' unfolding event(1) by blast
  next
    case (typed_line line k)
    then show ?thesis using s n'
      by (intro exI [of _ ms]) (simp add: tcp_session_def tcp_world_def set_world_def)
  next
    case (signal k)
    then show ?thesis using s n'
      by (intro exI [of _ ms]) (simp add: tcp_session_def tcp_world_def set_world_def)
  next
    case stop
    then show ?thesis using s n'
      by (intro exI [of _ ms]) (simp add: tcp_session_def tcp_world_def set_world_def)
  qed
qed

definition tcp_start :: "(string \<Rightarrow> host_addr option) \<Rightarrow> System \<Rightarrow> bool" where
  "tcp_start g s \<longleftrightarrow> sys_start g s \<and> delivery_service (mbox (world s)) = TCP"

definition tcp_session_inv :: "System \<Rightarrow> bool" where
  "tcp_session_inv s \<longleftrightarrow> (\<exists>ms. tcp_session s ms)"

lemma start_tcp:
  assumes "tcp_start g s"
  shows "tcp_session s []"
proof -
  have "sys_start g s" "delivery_service (mbox (world s)) = TCP" using assms by (simp_all add: tcp_start_def)
  moreover obtain connected type args k where k: "sane_kernel k" "set_up g connected type args k = Inr s"
    using sys_start_set_up calculation(1) .
  note sh = set_up_shape [OF k(2,1)] and fr = set_up_fresh [OF k(2)]
  moreover have "type = TCP" using calculation(2) sh by (simp add: new_MailBox_def)
  moreover have "said (machine s) (mbox (world s)) []"
    using sh said_start [of "machine s"] by (simp add: new_FSM_def)
  ultimately show ?thesis by (simp add: tcp_session_def tcp_world_def)
qed

interpretation tcp_sessions: step_invariant "tcp_start g" "sys_step g" tcp_session_inv for g
proof
  show "tcp_session_inv s" if "tcp_start g s" for s using start_tcp [OF that] by (auto simp: tcp_session_inv_def)
  show "tcp_session_inv t" if "tcp_session_inv s" "sys_step g s t" for s t
    using that tcp_step unfolding tcp_session_inv_def by blast
qed

subsection \<open>Properties of sessions over TCP\<close>

text \<open>
  C2. What is on the wire over TCP, in every reachable state of the program with all its threads:
  one line for each mail that was taken from the queue, in order and once. These mails
  followed by the ones still queued are numbered from 0 on and have the types that the
  protocol allows up to the state of the machine.
\<close>

theorem tcp_wire_is_dialogue:
  assumes "reach (tcp_start g) (sys_step g) s"
  shows "\<exists>ms. conn_payloads (conn (world s)) = map (bytes TCP) ms \<and>
    dialogue (state (machine s)) (ms @ outgoingMails (mbox (world s)))"
  using tcp_sessions.reach_inv [OF assms] by (auto simp: tcp_session_inv_def tcp_session_def said_def)

definition demo_tcp_argv :: "string list" where
  "demo_tcp_argv = [''-t'', ''tcp'', ''-s'', ''localhost'']"

lemma demo_tcp_reach: "\<exists>s. tcp_start demo_hosts s"
proof -
  have "case runMain_setup demo_hosts 0 ''chat'' demo_tcp_argv fresh_kernel of
      Inr s \<Rightarrow> delivery_service (mbox (world s)) = TCP | Inl _ \<Rightarrow> False"
    by code_simp
  then obtain s where "runMain_setup demo_hosts 0 ''chat'' demo_tcp_argv fresh_kernel = Inr s"
    "delivery_service (mbox (world s)) = TCP" by (auto split: sum.splits)
  then have "tcp_start demo_hosts s" using fresh_sane by (auto simp: tcp_start_def sys_start_def)
  then show ?thesis by blast
qed

theorem tcp_wire_is_dialogue_witness:
  "\<exists>s ms. tcp_start demo_hosts s \<and> conn_payloads (conn (world s)) = map (bytes TCP) ms"
proof -
  obtain s where s: "tcp_start demo_hosts s" using demo_tcp_reach by blast
  then have "reach (tcp_start demo_hosts) (sys_step demo_hosts) s" by (rule reach_start)
  from tcp_wire_is_dialogue [OF this] s show ?thesis by blast
qed

lemma bye_bytes: "spoken_mail m \<Longrightarrow> bytes TCP m = ''BYE'' @ [CR, LF] \<longleftrightarrow> mtype m = Some BYE"
  by (cases "mdata m") (auto simp: spoken_mail_def sound_defs bytes_def wire_tcp)

text \<open>
  C33. Every line that the program sends over TCP, in every reachable state, is in the grammar of
  the protocol's client, character by character, with fields over their alphabets that are
  neither empty nor too long. The listener leaves its loop exactly when the BYE is on the wire,
  whether \<open>keepRunning\<close> was cleared before or not, and nothing follows the BYE.
\<close>

theorem lines_well_formed:
  assumes "reach (tcp_start g) (sys_step g) s"
  shows "list_all client_line (conn_payloads (conn (world s))) \<and>
    (loop_guard (lst (world s)) \<longleftrightarrow> ''BYE'' @ [CR, LF] \<notin> set (conn_payloads (conn (world s)))) \<and>
    ''BYE'' @ [CR, LF] \<notin> set (butlast (conn_payloads (conn (world s))))"
proof -
  obtain ms where ms: "tcp_session s ms" using tcp_sessions.reach_inv [OF assms] by (auto simp: tcp_session_inv_def)
  then have said: "said (machine s) (mbox (world s)) ms" and wire: "conn_payloads (conn (world s)) = map (bytes TCP) ms"
    and bye: "sentBye (lst (world s)) \<longleftrightarrow> Some BYE \<in> set (map mtype ms)"
    by (simp_all add: tcp_session_def)
  note sp = said_spoken [OF said]
  have is_bye: "''BYE'' @ [CR, LF] = bytes TCP m \<longleftrightarrow> mtype m = Some BYE" if "m \<in> set ms" for m
    using bye_bytes [OF sp [OF that]] by auto
  have "loop_guard (lst (world s)) \<longleftrightarrow> \<not> sentBye (lst (world s))"
    using ms by (auto simp: tcp_session_def tcp_world_def loop_guard_def)
  moreover have "Some BYE \<in> set (map mtype ms) \<longleftrightarrow> ''BYE'' @ [CR, LF] \<in> set (conn_payloads (conn (world s)))"
    unfolding wire set_map image_iff using is_bye by force
  moreover have "list_all client_line (conn_payloads (conn (world s)))"
    using spoken_mail_line sp by (simp add: wire list_all_iff)
  moreover have "''BYE'' @ [CR, LF] \<notin> set (butlast (conn_payloads (conn (world s))))"
  proof
    assume "''BYE'' @ [CR, LF] \<in> set (butlast (conn_payloads (conn (world s))))"
    then obtain m where m: "m \<in> set (butlast ms)" "''BYE'' @ [CR, LF] = bytes TCP m"
      by (auto simp: wire simp flip: map_butlast)
    let ?all = "ms @ outgoingMails (mbox (world s))"
    have "spoken (state (machine s)) (map (the \<circ> mtype) ?all)" using said by (simp add: said_def dialogue_def)
    then have "BYE \<notin> set (butlast (map (the \<circ> mtype) ?all))" by (rule spoken_bye)
    moreover have "m \<in> set (butlast ?all)" using m(1) by (simp add: in_set_butlast_appendI)
    then have "the (mtype m) \<in> set (butlast (map (the \<circ> mtype) ?all))"
      unfolding map_butlast [symmetric] set_map comp_def by (rule imageI)
    moreover have "mtype m = Some BYE" using is_bye m in_set_butlastD by metis
    ultimately show False by simp
  qed
  ultimately show ?thesis using bye by blast
qed

theorem lines_well_formed_witness:
  "\<exists>s. tcp_start demo_hosts s \<and> loop_guard (lst (world s)) \<and> ''BYE'' @ [CR, LF] \<notin> set (conn_payloads (conn (world s)))"
proof -
  obtain s where s: "tcp_start demo_hosts s" using demo_tcp_reach by blast
  then have r: "reach (tcp_start demo_hosts) (sys_step demo_hosts) s" by (rule reach_start)
  obtain connected type args k where "sane_kernel k" "set_up demo_hosts connected type args k = Inr s"
    using s sys_start_set_up unfolding tcp_start_def by metis
  then have "loop_guard (lst (world s))" using set_up_fresh by (simp add: loop_guard_def)
  with lines_well_formed [OF r] s show ?thesis by blast
qed

end
