(* ===== verification/Interrupt.thy ===== *)
theory Interrupt
  imports Session
begin

text \<open>
  The end of a program over UDP that is interrupted: from the signal handler through the
  signal pipe and the listener to the state machine, whose BYE goes through the queue and the
  notification pipe to the wire, and from the confirmation of the server to the end of the
  loop of the listener. The states of this run also show what the invariant of the listener says
  while a confirmation is awaited, and that every datagram sent is in the grammar of the client.
\<close>

subsection \<open>The socket and the signal pipe are watched\<close>

definition watched :: "fdType \<Rightarrow> int \<Rightarrow> Listener \<Rightarrow> bool" where
  "watched t fd l \<longleftrightarrow> map_of (fdMap l) fd = Some t \<and> fd \<in> set (interest l)"

definition alert :: "System \<Rightarrow> bool" where
  "alert s \<longleftrightarrow> watched SignalPipe (read_fd (signal_pipe s)) (lst (world s)) \<and>
     (\<exists>sock. watched SocketPipe sock (lst (world s)))"

text \<open>What precedes a wait registers or unregisters the notification pipe and nothing else.\<close>

lemma begin_turn_interest:
  assumes "begin_turn e w = Inr (t, w')" and "notifyListenerPipe (mbox w) = Some p" and "fd \<noteq> getReadFd p"
  shows "fd \<in> set (interest (lst w')) \<longleftrightarrow> fd \<in> set (interest (lst w))" and "fdMap (lst w') = fdMap (lst w)"
  using assms
  by (auto simp: begin_turn_def sync_interest_def next_timeout_def notify_fd_def unregisterFd_def registerFd_def
      rbind_eq_Inr Let_def case_prod_beta split: if_splits)

lemma watched_apart:
  "notified s \<Longrightarrow> watched t fd (lst (world s)) \<Longrightarrow> t \<noteq> ToSendPipe \<Longrightarrow> fd \<noteq> read_fd (send_pipe s)"
  by (auto simp: notified_def plumbed_def watched_def)

lemma begin_turn_watched:
  assumes "notified s" and "begin_turn e (world s) = Inr (t, w)" and "watched ty fd (lst (world s))" and "ty \<noteq> ToSendPipe"
  shows "watched ty fd (lst w)"
proof -
  have p: "notifyListenerPipe (mbox (world s)) = Some (send_pipe s)" using assms(1) by (simp add: notified_def wired_def)
  have "fd \<noteq> getReadFd (send_pipe s)" using watched_apart [OF assms(1,3,4)] by (simp add: getReadFd_def)
  with begin_turn_interest [OF assms(2) p] assms(3) show ?thesis by (simp add: watched_def)
qed

lemma alert_same:
  "alert s \<Longrightarrow> signal_pipe s' = signal_pipe s \<Longrightarrow> fdMap (lst (world s')) = fdMap (lst (world s)) \<Longrightarrow>
    interest (lst (world s')) = interest (lst (world s)) \<Longrightarrow> alert s'"
  by (simp add: alert_def watched_def)

lemma alert_begin:
  assumes "notified s" and "alert s" and "begin_turn e (world s) = Inr (t, w)"
  shows "alert (s\<lparr>world := w, todo := evs\<rparr>)"
  using assms begin_turn_watched [OF assms(1,3)] by (fastforce simp: alert_def)

lemma alert_step:
  assumes n: "notified s" and a: "alert s" and step: "sys_step g s s'"
  shows "alert s'"
  using step
proof (cases rule: sys_step_cases)
  case (poll e t w events)
  then show ?thesis using alert_begin [OF n a poll(5)] by simp
next
  case (idle e w)
  then obtain t w1 where w1: "begin_turn e (world s) = Inr (t, w1)" "after_wait g e w1 = Inr w"
    by (auto simp: listener_turn_Inr turn_body_def rbind_eq_Inr)
  have a1: "alert (s\<lparr>world := w1, todo := todo s\<rparr>)" using alert_begin [OF n a w1(1)] .
  have "fdMap (lst w) = fdMap (lst w1) \<and> interest (lst w) = interest (lst w1)"
    using w1(2) idle(5) by (cases "wake e") (auto simp: after_wait_def dest: on_timeout_kernel)
  then show ?thesis using idle(1) by (intro alert_same [OF a1]) (simp_all add: set_world_def)
next
  case (event x rest w)
  obtain fd inc k where x: "x = (fd, inc, k)" by (rule prod_cases3)
  have "fdMap (lst w) = fdMap (lst (world s)) \<and> interest (lst w) = interest (lst (world s))"
    using on_event_cases [OF event(3) [unfolded x]] quiet_sel by (fastforce simp: sends_def)
  then show ?thesis using event(1) by (intro alert_same [OF a]) simp_all
qed (rule alert_same [OF a], simp_all add: set_world_def)+

definition udp_alive :: "System \<Rightarrow> bool" where
  "udp_alive s \<longleftrightarrow> udp_session_inv s \<and> alert s"

lemma udp_alive_parts:
  assumes "udp_alive s"
  obtains R xs where "udp_session R s xs" "notified s" "turn_inv (send_pipe s) R (world s)" "alert s"
  using assms by (auto simp: udp_alive_def udp_session_inv_def udp_session_def udp_inv_def)

lemma start_alert:
  assumes "udp_start g s"
  shows "alert s"
proof -
  obtain connected type args k where k: "sane_kernel k" "set_up g connected type args k = Inr s"
    using assms sys_start_set_up unfolding udp_start_def by metis
  obtain sock where d: "distinct [getReadFd (in_pipe s), sock, getReadFd (send_pipe s), getReadFd (signal_pipe s)]"
    and r: "registerFds (main_listener (getReadFd (in_pipe s)) sock (getReadFd (send_pipe s))
        (getReadFd (signal_pipe s)) type) = Inr (lst (world s))"
    using set_up_shape [OF k(2,1)] by blast
  have "watched SignalPipe (getReadFd (signal_pipe s)) (lst (world s))" "watched SocketPipe sock (lst (world s))"
    using main_listener_registered [OF d, of type] r main_listener_fdMap [OF d, of type] d
    by (auto simp: watched_def dest!: sym [of _ "lst (world s)"])
  then show ?thesis by (auto simp: alert_def getReadFd_def)
qed

interpretation udp_lives: step_invariant "udp_start g" "sys_step g" udp_alive for g
proof
  show "udp_alive s" if "udp_start g s" for s
    using udp_sessions.inv_start [OF that] start_alert [OF that] by (simp add: udp_alive_def)
  show "udp_alive t" if a: "udp_alive s" and step: "sys_step g s t" for s t
  proof -
    obtain R xs where "notified s" "alert s" using udp_alive_parts [OF a] by metis
    then show ?thesis using udp_sessions.inv_step [OF _ step] alert_step [OF _ _ step] a by (simp add: udp_alive_def)
  qed
qed

subsection \<open>One event of the listener\<close>

text \<open>
  A descriptor that is watched may become ready, and a turn with this event alone is a wait, which
  leaves the world \<open>w\<close>, and the handler on \<open>w\<close>.
\<close>

lemma one_event:
  assumes "udp_alive s" and "todo s = []" and "loop_guard (lst (world s))"
    and "fd = read_fd (send_pipe s) \<and> receivedConfirm (lst (world s)) \<or>
      watched t fd (lst (world s)) \<and> t \<noteq> ToSendPipe"
  shows "\<exists>w. settles (send_pipe s) (world s) w \<and>
    (\<forall>w'. on_event g (fd, inc, n) w = Inr w' \<longrightarrow> (sys_step g)\<^sup>*\<^sup>* s (s\<lparr>world := w', todo := []\<rparr>))"
proof -
  have nt: "notified s" using udp_alive_parts [OF assms(1)] by metis
  define e where "e = quiet_turn (Ready [(fd, inc, n)])"
  obtain c where c: "wired (send_pipe s) (world s)" "conn (world s) = Some c" using nt by (auto simp: notified_def)
  obtain tm w where b: "begin_turn e (world s) = Inr (tm, w)" "settles (send_pipe s) (world s) w"
    using begin_turn_settles [OF c] by blast
  have fd: "fd \<in> set (interest (lst w))"
    using assms(4) settles_sel [OF b(2)] begin_turn_watched [OF nt b(1)] by (auto simp: getReadFd_def watched_def)
  let ?s1 = "s\<lparr>world := w, todo := [(fd, inc, n)]\<rparr>"
  have poll: "sys_step g s ?s1"
    by (rule sys_step.poll [OF assms(2,3) _ b(1)]) (use fd b(1) in \<open>simp_all add: possible_def allowed_def e_def quiet_turn_def\<close>)
  have "(sys_step g)\<^sup>*\<^sup>* s (s\<lparr>world := w', todo := []\<rparr>)" if "on_event g (fd, inc, n) w = Inr w'" for w'
  proof -
    have "sys_step g ?s1 (?s1\<lparr>world := w', todo := []\<rparr>)"
      by (rule sys_step.event [where x = "(fd, inc, n)"]) (simp_all add: that)
    with poll show ?thesis by (simp add: converse_rtranclp_into_rtranclp)
  qed
  with b(2) show ?thesis by blast
qed

lemma settles_rest:
  "settles p w w' \<Longrightarrow> kernel w' = kernel w \<and> con w' = con w \<and> protocolType (lst w') = protocolType (lst w)"
  by (auto simp: settles_def)

subsection \<open>From the signal to the wire\<close>

lemma signal_read:
  assumes "open_pipe p (kernel w)" and "pending p (kernel w) \<noteq> []"
  shows "\<exists>k. clear_pipe name (read_fd p) w = Inr (True, w\<lparr>kernel := k\<rparr>)"
  using sys_read_open [OF assms, of 1] assms(2) by (auto simp: clear_pipe_def take_Suc)

lemma signal_write:
  assumes "open_pipe p k"
  shows "\<exists>k'. handleSignal (write_fd p) k = Inr k' \<and> open_pipe p k' \<and> pending p k' \<noteq> []"
proof -
  obtain k' where k': "Pipe_write p ''1'' k = Inr k'" "fds k' = fds k" "pending p k' = pending p k @ ''1''"
    using Pipe_write_open [OF assms, of "''1''"] by blast
  have "handleSignal (write_fd p) k = Inr k'"
    using k'(1) assms by (auto simp: handleSignal_def Pipe_write_def open_pipe_def split: option.splits if_splits)
  then show ?thesis using k'(3) assms open_pipe_fds [OF k'(2)] by simp
qed

text \<open>The mail the listener makes of a signal.\<close>

definition interrupt_mail :: "MailBox \<Rightarrow> Mail" where
  "interrupt_mail mb = default_Mail\<lparr>mtype := Some ERR,
     mdata := ErrorMessage (uint (sequenceUDPNumber mb)) (displayName mb) ''MessageContent'', sigint := True\<rparr>"

lemma interrupt_mail_sel [simp]:
  "mtype (interrupt_mail mb) = Some ERR" "sigint (interrupt_mail mb)" "addToMailQueue (interrupt_mail mb)"
  by (simp_all add: interrupt_mail_def)

lemma listenSignal_delivers:
  assumes "clear_pipe ''signal'' fd w = Inr (True, w\<lparr>kernel := k\<rparr>)" and "valid_name (displayName (mbox w))"
  shows "listenSignal fd w = Inr (True, w\<lparr>kernel := k, mbox := addMail (interrupt_mail (mbox w)) (mbox w),
    lst := (lst w)\<lparr>keepRunning := False\<rparr>\<rparr>)"
proof -
  have "writeMail_type ERR default_Mail (-1) (mbox w) = Inr (default_Mail\<lparr>mtype := Some ERR,
      mdata := ErrorMessage (uint (sequenceUDPNumber (mbox w))) (displayName (mbox w)) ''MessageContent''\<rparr>)"
    using assms(2) by (simp add: writeMail_type_def Let_def mkErrorMessage_def validators_eq)
  then show ?thesis by (simp add: listenSignal_def assms(1) deliver_def interrupt_mail_def)
qed

text \<open>A world in which nothing is under way: no mail queued, no confirmation awaited.\<close>

definition at_rest :: "World \<Rightarrow> bool" where
  "at_rest w \<longleftrightarrow> incomingMails (mbox w) = [] \<and> outgoingMails (mbox w) = [] \<and> receivedConfirm (lst w)"

lemma signal_handled:
  assumes a: "udp_alive s" and td: "todo s = []" and rest: "at_rest (world s)" and nb: "\<not> sentBye (lst (world s))"
    and v: "valid_name (displayName (mbox (world s)))"
    and pend: "pending (signal_pipe s) (kernel (world s)) \<noteq> []"
  shows "\<exists>w. (sys_step g)\<^sup>*\<^sup>* s (s\<lparr>world := w, todo := []\<rparr>) \<and> conn w = conn (world s) \<and> con w = con (world s) \<and>
    mbox w = addMail (interrupt_mail (mbox (world s))) (mbox (world s)) \<and> receivedConfirm (lst w) \<and> \<not> sentBye (lst w)"
proof -
  let ?fd = "read_fd (signal_pipe s)"
  obtain R xs where n: "notified s" and al: "alert s" using udp_alive_parts [OF a] by metis
  have g: "loop_guard (lst (world s))" using nb by (simp add: loop_guard_def)
  have w: "watched SignalPipe ?fd (lst (world s))" using al by (simp add: alert_def)
  obtain w1 where w1: "settles (send_pipe s) (world s) w1"
    "\<And>w'. on_event g (?fd, Recv_error True, 0) w1 = Inr w' \<Longrightarrow> (sys_step g)\<^sup>*\<^sup>* s (s\<lparr>world := w', todo := []\<rparr>)"
    using one_event [OF a td g, of ?fd SignalPipe g "Recv_error True" 0] w by auto
  note sel = settles_sel [OF w1(1)] and rst = settles_rest [OF w1(1)]
  obtain k where k: "clear_pipe ''signal'' ?fd w1 = Inr (True, w1\<lparr>kernel := k\<rparr>)"
    using signal_read [of "signal_pipe s" w1] notified_pipe(4) [OF n] pend rst by auto
  have "map_of (fdMap (lst w1)) ?fd = Some SignalPipe" using w sel by (simp add: watched_def)
  moreover have "valid_name (displayName (mbox w1))" using v sel by simp
  ultimately have "on_event g (?fd, Recv_error True, 0) w1 = Inr (w1\<lparr>kernel := k,
      mbox := addMail (interrupt_mail (mbox w1)) (mbox w1), lst := (lst w1)\<lparr>keepRunning := False\<rparr>\<rparr>)"
    using listenSignal_delivers [OF k] by (simp add: on_event_def checked_def)
  note run = w1(2) [OF this]
  show ?thesis by (rule exI, rule conjI [OF run]) (use sel rst rest nb in \<open>simp add: at_rest_def\<close>)
qed

text \<open>The machine answers with a BYE, in every state in which it waits.\<close>

lemma interrupt_turn:
  assumes "linked p mb k" and "incomingMails mb = [interrupt_mail mb0]" and "listening (state fsm)"
  shows "\<exists>fsm' mb' k' m. fsm_iteration fsm mb k = Inr ([], fsm', mb', k') \<and> state fsm' = END \<and>
    incomingMails mb' = [] \<and> outgoingMails mb' = outgoingMails mb @ [m] \<and> mtype m = Some BYE \<and>
    mdata m = ByeMessage (uint (sequenceUDPNumber mb))"
proof -
  let ?m = "(interrupt_mail mb0)\<lparr>mtype := Some BYE, mdata := ByeMessage (uint (sequenceUDPNumber mb))\<rparr>"
  let ?mb = "mb\<lparr>incomingMails := []\<rparr>"
  have l: "linked p ?mb k" using assms(1) by (simp add: linked_def)
  have "announce (interrupt_mail mb0) = Inr []" by (simp add: announce_def)
  then have w: "with_mail h mb k = h [] ERR (interrupt_mail mb0) ?mb k" for h
    using assms(2) by (simp add: with_mail_def waitMail_def)
  have it: "fsm_iteration fsm mb k = send_new [] BYE END (interrupt_mail mb0) ?mb k"
    using assms(3) by (cases "state fsm")
      (simp_all add: fsm_iteration_def listening_def w on_START_def on_AUTH_def on_OPEN_def)
  have "addToMailQueue ?m" by simp
  from sendMail_linked [OF l this] obtain k' where
    "sendMail ?m ?mb k = Inr (renumber (sequenceUDPNumber ?mb) ?m,
      ?mb\<lparr>sequenceUDPNumber := sequenceUDPNumber ?mb + of_bool (numbered (mdata ?m)),
         outgoingMails := outgoingMails ?mb @ [renumber (sequenceUDPNumber ?mb) ?m]\<rparr>, k')" by blast
  then show ?thesis
    unfolding it by (simp add: send_new_def writeMail_type_def Let_def forward_def goto_def)
qed

text \<open>The listener sends it, and waits for its confirmation.\<close>

lemma send_bye:
  assumes "udp_world w" and "outgoingMails (mbox w) = [m]" and "mtype m = Some BYE" and "mdata m = ByeMessage i"
  shows "\<exists>c. send_next 0 w = Inr (w\<lparr>mbox := (mbox w)\<lparr>outgoingMails := []\<rparr>, conn := Some c,
      lst := (lst w)\<lparr>sentBye := True, keepRunning := False, receivedConfirm := False, refMsgId := i, confMail := m\<rparr>\<rparr>) \<and>
    conn_payloads (Some c) = conn_payloads (conn w) @ [CHR 0xFF # id_bytes i]"
proof -
  obtain c where c: "conn w = Some c" "protocol_type c = UDP" "protocolType (lst w) = UDP"
    using assms(1) by (auto simp: udp_world_def conn_of_def split: option.splits)
  have "serialize True m = Inr (CHR 0xFF # id_bytes i)"
    using assms(3,4) by (simp add: serialize_def wire_udp type_bytes [simplified])
  then show ?thesis
    using c assms(2-4)
    by (intro exI [of _ "c\<lparr>sent := sent c @ [(server_addr c, CHR 0xFF # id_bytes i)]\<rparr>"])
      (simp add: send_next_def getOutgoingMail_def send_mail_def sendData_def udp_sendData_def sendTo_def
        hand_over_def conn_payloads_def note_sent_def Let_def getMessageID_def)
qed

lemma bye_posted:
  assumes a: "udp_alive s" and td: "todo s = []" and rc: "receivedConfirm (lst (world s))" and nb: "\<not> sentBye (lst (world s))"
    and m: "outgoingMails (mbox (world s)) = [m]" "mtype m = Some BYE" "mdata m = ByeMessage i"
  shows "\<exists>w. (sys_step g)\<^sup>*\<^sup>* s (s\<lparr>world := w, todo := []\<rparr>) \<and> con w = con (world s) \<and>
    conn_payloads (conn w) = conn_payloads (conn (world s)) @ [CHR 0xFF # id_bytes i] \<and>
    sentBye (lst w) \<and> \<not> keepRunning (lst w) \<and> \<not> receivedConfirm (lst w) \<and> refMsgId (lst w) = i"
proof -
  let ?p = "send_pipe s"
  obtain R xs where n: "notified s" and inv: "turn_inv ?p R (world s)" using udp_alive_parts [OF a] by metis
  have g: "loop_guard (lst (world s))" using nb by (simp add: loop_guard_def)
  obtain w1 where w1: "settles ?p (world s) w1"
    "\<And>w'. on_event g (read_fd ?p, Recv_error True, 0) w1 = Inr w' \<Longrightarrow> (sys_step g)\<^sup>*\<^sup>* s (s\<lparr>world := w', todo := []\<rparr>)"
    using one_event [OF a td g, of "read_fd ?p" ToSendPipe g "Recv_error True" 0] rc by auto
  note sel = settles_sel [OF w1(1)] and rst = settles_rest [OF w1(1)]
  have "pending ?p (kernel w1) \<noteq> []" using n m(1) rst by (auto simp: notified_def)
  then obtain k where k: "clear_pipe ''send'' (read_fd ?p) w1 = Inr (True, w1\<lparr>kernel := k\<rparr>)"
    using signal_read [of ?p w1] notified_pipe(1) [OF n] rst by auto
  have u: "udp_world (w1\<lparr>kernel := k\<rparr>)" using settles_inv [OF inv w1(1)] by (simp add: turn_inv_def udp_world_def)
  from send_bye [OF this _ m(2,3)] m(1) sel obtain c where
    c: "send_next 0 (w1\<lparr>kernel := k\<rparr>) = Inr (w1\<lparr>kernel := k, mbox := (mbox w1)\<lparr>outgoingMails := []\<rparr>, conn := Some c,
      lst := (lst w1)\<lparr>sentBye := True, keepRunning := False, receivedConfirm := False, refMsgId := i, confMail := m\<rparr>\<rparr>)"
    "conn_payloads (Some c) = conn_payloads (conn w1) @ [CHR 0xFF # id_bytes i]" by auto
  have "map_of (fdMap (lst w1)) (read_fd ?p) = Some ToSendPipe" using n sel by (simp add: notified_def plumbed_def)
  then have "on_event g (read_fd ?p, Recv_error True, 0) w1 = send_next 0 (w1\<lparr>kernel := k\<rparr>)"
    using k c(1) by (simp add: on_event_def checked_def listenToSendPipe_def)
  note run = w1(2) [OF this [unfolded c(1)]]
  show ?thesis by (rule exI, rule conjI [OF run]) (use c(2) sel rst in simp)
qed

text \<open>The confirmation of the server ends the loop.\<close>

lemma confirmation_ends_loop:
  assumes a: "udp_alive s" and td: "todo s = []" and c: "conn (world s) = Some c"
    and l: "sentBye (lst (world s))" "\<not> keepRunning (lst (world s))" "\<not> receivedConfirm (lst (world s))"
    and i: "refMsgId (lst (world s)) = i" "reread_int i = i"
  shows "\<exists>w. (sys_step g)\<^sup>*\<^sup>* s (s\<lparr>world := w, todo := []\<rparr>) \<and> con w = con (world s) \<and> conn w = conn (world s) \<and>
    \<not> loop_guard (lst w)"
proof -
  obtain R xs where n: "notified s" and inv: "turn_inv (send_pipe s) R (world s)" and al: "alert s"
    using udp_alive_parts [OF a] by metis
  obtain sock where sock: "watched SocketPipe sock (lst (world s))" using al by (auto simp: alert_def)
  have g: "loop_guard (lst (world s))" using l by (simp add: loop_guard_def)
  obtain w1 where w1: "settles (send_pipe s) (world s) w1"
    "\<And>w'. on_event g (sock, Recv (confirmation i) (port c), 0) w1 = Inr w' \<Longrightarrow> (sys_step g)\<^sup>*\<^sup>* s (s\<lparr>world := w', todo := []\<rparr>)"
    using one_event [OF a td g, of sock SocketPipe g "Recv (confirmation i) (port c)" 0] sock by auto
  note sel = settles_sel [OF w1(1)] and rst = settles_rest [OF w1(1)]
  have u: "udp_world w1" "conn w1 = Some c" using settles_inv [OF inv w1(1)] sel c by (simp_all add: turn_inv_def)
  have d: "server_datagram (ConfirmMessage i) = confirmation i" by (simp add: server_datagram_def confirmation_def)
  have "length (confirmation i) \<le> 1023" by (simp add: confirmation_def wire_udp id_bytes_def)
  then have "listenSocket g (Recv (confirmation i) (port c)) 0 w1 = Inr (True, note_confirm w1)"
    using listenSocket_datagram [OF u, of "ConfirmMessage i" 0 g] l(3) i sel
    by (simp add: d reaction_def accepted_def acknowledges_def)
  moreover have "map_of (fdMap (lst w1)) sock = Some SocketPipe" using sock sel by (simp add: watched_def)
  ultimately have "on_event g (sock, Recv (confirmation i) (port c), 0) w1 = Inr (note_confirm w1)"
    by (simp add: on_event_def checked_def)
  note run = w1(2) [OF this]
  show ?thesis by (rule exI, rule conjI [OF run]) (use l sel rst in \<open>simp add: note_confirm_def loop_guard_def\<close>)
qed

subsection \<open>The run of an interrupted program\<close>

lemma silent_bye:
  assumes "udp_session R s xs" and "listening (state (machine s))"
  shows "\<not> sentBye (lst (world s))"
proof
  assume "sentBye (lst (world s))"
  then have "Some BYE \<in> mtype ` fst ` set xs" using assms(1) by (simp add: udp_session_def udp_wire_def)
  then obtain m where m: "m \<in> set (map fst xs)" "mtype m = Some BYE" by (auto simp: image_iff) (metis fst_conv)
  let ?ts = "map (the \<circ> mtype) (map fst xs @ outgoingMails (mbox (world s)))"
  have "spoken (state (machine s)) ?ts" using assms(1) by (simp add: udp_session_def said_def dialogue_def)
  then have "BYE \<notin> set ?ts"
    using assms(2) by (cases "state (machine s)")
      (auto simp: listening_def list_all_iff dest!: chatted_types simp del: map_append set_map)
  moreover have "BYE \<in> set ?ts" using m by force
  ultimately show False by blast
qed

definition bye_awaited :: "System \<Rightarrow> System \<Rightarrow> bool" where
  "bye_awaited s s' \<longleftrightarrow> udp_alive s' \<and> todo s' = [] \<and> state (machine s') = END \<and> con (world s') = con (world s) \<and>
     conn_payloads (conn (world s')) = conn_payloads (conn (world s)) @
       [CHR 0xFF # id_bytes (uint (sequenceUDPNumber (mbox (world s))))] \<and>
     sentBye (lst (world s')) \<and> \<not> keepRunning (lst (world s')) \<and> \<not> receivedConfirm (lst (world s')) \<and>
     refMsgId (lst (world s')) = uint (sequenceUDPNumber (mbox (world s)))"

lemma interrupt_bye:
  assumes a: "udp_alive s" and l: "listening (state (machine s))" and td: "todo s = []" and rest: "at_rest (world s)"
    and v: "valid_name (displayName (mbox (world s)))"
  shows "\<exists>k. handleSignal (write_fd (signal_pipe s)) (kernel (world s)) = Inr k \<and>
    (\<exists>s'. (sys_step g)\<^sup>*\<^sup>* (set_world ((world s)\<lparr>kernel := k\<rparr>) s) s' \<and> bye_awaited s s')"
proof -
  obtain R xs where u: "udp_session R s xs" and n: "notified s" using udp_alive_parts [OF a] by metis
  obtain k where k: "handleSignal (write_fd (signal_pipe s)) (kernel (world s)) = Inr k" "pending (signal_pipe s) k \<noteq> []"
    using signal_write [OF notified_pipe(4) [OF n]] by blast
  let ?s0 = "set_world ((world s)\<lparr>kernel := k\<rparr>) s"
  have a0: "udp_alive ?s0" using udp_lives.inv_step [OF a sys_step.signal [OF k(1)]] .
  obtain w where w: "(sys_step g)\<^sup>*\<^sup>* ?s0 (?s0\<lparr>world := w, todo := []\<rparr>)" "conn w = conn (world s)" "con w = con (world s)"
    "mbox w = addMail (interrupt_mail (mbox (world s))) (mbox (world s))" "receivedConfirm (lst w)" "\<not> sentBye (lst w)"
    using signal_handled [OF a0, of g] td rest v k(2) silent_bye [OF u l] by (auto simp: set_world_def at_rest_def)
  let ?s1 = "?s0\<lparr>world := w, todo := []\<rparr>"
  have a1: "udp_alive ?s1" using udp_lives.steps_inv [OF w(1) a0] .
  then have n1: "notified ?s1" using udp_alive_parts by metis
  have mb: "incomingMails (mbox w) = [interrupt_mail (mbox (world s))]" "outgoingMails (mbox w) = []"
    "sequenceUDPNumber (mbox w) = sequenceUDPNumber (mbox (world s))"
    using w(4) rest by (simp_all add: at_rest_def addMail_def)
  have l1: "linked (send_pipe ?s1) (mbox w) (kernel w)" using notified_linked [OF n1] by simp
  obtain f mb' k' m where f: "fsm_iteration (machine s) (mbox w) (kernel w) = Inr ([], f, mb', k')" "state f = END"
    "outgoingMails mb' = [m]" "mtype m = Some BYE" "mdata m = ByeMessage (uint (sequenceUDPNumber (mbox (world s))))"
    using interrupt_turn [OF l1 mb(1) l] mb(2,3) by auto
  let ?s2 = "?s1\<lparr>machine := f, world := print [] (w\<lparr>mbox := mb', kernel := k'\<rparr>)\<rparr>"
  have "sys_step g ?s1 ?s2"
    using sys_step.fsm_turn [of ?s1 "[]" f mb' k' g] f(1) l by (auto simp: listening_def set_world_def)
  then have s2: "(sys_step g)\<^sup>*\<^sup>* ?s0 ?s2" using w(1) by simp
  have a2: "udp_alive ?s2" using udp_lives.steps_inv [OF s2 a0] .
  obtain w' where w': "(sys_step g)\<^sup>*\<^sup>* ?s2 (?s2\<lparr>world := w', todo := []\<rparr>)" "con w' = con w"
    "conn_payloads (conn w') = conn_payloads (conn w) @ [CHR 0xFF # id_bytes (uint (sequenceUDPNumber (mbox (world s))))]"
    "sentBye (lst w')" "\<not> keepRunning (lst w')" "\<not> receivedConfirm (lst w')"
    "refMsgId (lst w') = uint (sequenceUDPNumber (mbox (world s)))"
    using bye_posted [OF a2, of m _ g] f(3-5) w(5,6) by auto
  let ?s3 = "?s2\<lparr>world := w', todo := []\<rparr>"
  have s3: "(sys_step g)\<^sup>*\<^sup>* ?s0 ?s3" using s2 w'(1) by (rule rtranclp_trans)
  have "bye_awaited s ?s3"
    using udp_lives.steps_inv [OF s3 a0] f(2) w(2,3) w' by (simp add: bye_awaited_def)
  then show ?thesis using k(1) s3 by blast
qed

subsection \<open>Properties\<close>

text \<open>
  C3. An interrupt can end the program over UDP, in order. Take a reachable state in which the machine
  waits for a mail, the listener handles no event, both queues are empty, no confirmation is
  awaited, the display name is valid and the next identifier is one the client can read back.
  Then the signal handler succeeds, and the state it leaves can be followed by a run, with the
  confirmation of the server at its end, after which the listener has left its loop and can be
  joined: the BYE with the next identifier is the one datagram sent, and nothing is printed.
\<close>

theorem interrupt_ends_program:
  assumes "reach (udp_start g) (sys_step g) s" and "listening (state (machine s))" and "todo s = []"
    and "incomingMails (mbox (world s)) = []" and "outgoingMails (mbox (world s)) = []"
    and "receivedConfirm (lst (world s))" and "valid_name (displayName (mbox (world s)))"
    and "readable (sequenceUDPNumber (mbox (world s)))"
  shows "\<exists>k. handleSignal (write_fd (signal_pipe s)) (kernel (world s)) = Inr k \<and>
    (\<exists>s'. (sys_step g)\<^sup>*\<^sup>* (set_world ((world s)\<lparr>kernel := k\<rparr>) s) s' \<and> joined s' \<and>
      conn_payloads (conn (world s')) = conn_payloads (conn (world s)) @
        [CHR 0xFF # id_bytes (uint (sequenceUDPNumber (mbox (world s))))] \<and>
      con (world s') = con (world s))"
proof -
  have a: "udp_alive s" using udp_lives.reach_inv [OF assms(1)] .
  have "at_rest (world s)" using assms(4-6) by (simp add: at_rest_def)
  from interrupt_bye [OF a assms(2,3) this assms(7)] obtain k s1 where
    k: "handleSignal (write_fd (signal_pipe s)) (kernel (world s)) = Inr k"
    and s1: "(sys_step g)\<^sup>*\<^sup>* (set_world ((world s)\<lparr>kernel := k\<rparr>) s) s1" "bye_awaited s s1" by blast
  then have b: "udp_alive s1" "todo s1 = []" by (simp_all add: bye_awaited_def)
  have "notified s1" using udp_alive_parts [OF b(1)] by metis
  then obtain c where c: "conn (world s1) = Some c" by (auto simp: notified_def)
  have "reread_int (uint (sequenceUDPNumber (mbox (world s)))) = uint (sequenceUDPNumber (mbox (world s)))"
    using assms(8) by (simp add: reread_int_def readable_def)
  from confirmation_ends_loop [OF b c _ _ _ _ this, of g] s1(2) obtain w where
    w: "(sys_step g)\<^sup>*\<^sup>* s1 (s1\<lparr>world := w, todo := []\<rparr>)" "con w = con (world s1)" "conn w = conn (world s1)"
      "\<not> loop_guard (lst w)" by (auto simp: bye_awaited_def)
  have "(sys_step g)\<^sup>*\<^sup>* (set_world ((world s)\<lparr>kernel := k\<rparr>) s) (s1\<lparr>world := w, todo := []\<rparr>)"
    using s1(1) w(1) by (rule rtranclp_trans)
  moreover have "joined (s1\<lparr>world := w, todo := []\<rparr>)" using w(4) s1(2) by (simp add: joined_def bye_awaited_def)
  ultimately show ?thesis
    using k w s1(2) by (intro exI [of _ k] conjI exI [of _ "s1\<lparr>world := w, todo := []\<rparr>"]) (simp_all add: bye_awaited_def)
qed

text \<open>A start state is one to which this applies.\<close>

lemma demo_at_rest:
  obtains s where "udp_start demo_hosts s" "reach (udp_start demo_hosts) (sys_step demo_hosts) s"
    "listening (state (machine s))" "todo s = []" "at_rest (world s)" "displayName (mbox (world s)) = ''default''"
    "conn_payloads (conn (world s)) = []" "sequenceUDPNumber (mbox (world s)) = 0"
proof -
  obtain s where s: "runMain_setup demo_hosts 0 ''chat'' demo_argv fresh_kernel = Inr s"
    "delivery_service (mbox (world s)) = UDP" using demo_runs by blast
  then have st: "udp_start demo_hosts s" using fresh_sane by (auto simp: udp_start_def sys_start_def)
  then obtain connected type args k where k: "sane_kernel k" "set_up demo_hosts connected type args k = Inr s"
    using sys_start_set_up unfolding udp_start_def by metis
  note sh = set_up_shape [OF k(2,1)] and fr = set_up_fresh [OF k(2)]
  have r: "reach (udp_start demo_hosts) (sys_step demo_hosts) s" by (rule reach_start) (rule st)
  show thesis
    by (rule that [OF st r])
      (use sh fr in \<open>simp_all add: new_FSM_def new_MailBox_def listening_def at_rest_def\<close>)
qed

theorem interrupt_ends_program_witness:
  "\<exists>s s' k. udp_start demo_hosts s \<and> handleSignal (write_fd (signal_pipe s)) (kernel (world s)) = Inr k \<and>
    (sys_step demo_hosts)\<^sup>*\<^sup>* (set_world ((world s)\<lparr>kernel := k\<rparr>) s) s' \<and> joined s' \<and>
    conn_payloads (conn (world s')) = [[CHR 0xFF, CHR 0x00, CHR 0x00]]"
proof -
  obtain s where s: "udp_start demo_hosts s" "reach (udp_start demo_hosts) (sys_step demo_hosts) s"
    "listening (state (machine s))" "todo s = []" "at_rest (world s)" "displayName (mbox (world s)) = ''default''"
    "conn_payloads (conn (world s)) = []" "sequenceUDPNumber (mbox (world s)) = 0" by (rule demo_at_rest)
  have "valid_name ''default''" by (simp add: valid_name_def in_range_def code_def)
  moreover have "readable 0" unfolding readable_def reread_def by code_simp
  moreover have "id_bytes 0 = [CHR 0x00, CHR 0x00]" by code_simp
  ultimately show ?thesis
    using interrupt_ends_program [OF s(2-4)] s by (simp add: at_rest_def) blast
qed

text \<open>
  C13. What the listener knows in every reachable state of the program over UDP. The notification
  pipe is in the interest list exactly when the listener says so, and no descriptor is there
  twice. While nothing is awaited, the retry counter is zero and no identifier is kept. While a confirmation is awaited,
  it is for the identifier of the mail that would be sent again, the counter is within the
  retry limit of the connection, and the last datagrams sent, apart from confirmations, are
  this mail once and as many times again as the counter says.
\<close>

theorem listener_invariant:
  assumes "reach (udp_start g) (sys_step g) s"
  shows "\<exists>R. retry_limit (conn (world s)) = Some R \<and> distinct (interest (lst (world s))) \<and>
    (toSendRegistered (lst (world s)) \<longleftrightarrow> read_fd (send_pipe s) \<in> set (interest (lst (world s)))) \<and>
    0 \<le> retries (lst (world s)) \<and> retries (lst (world s)) \<le> R \<and>
    (if receivedConfirm (lst (world s)) then retries (lst (world s)) = 0 \<and> refMsgId (lst (world s)) = -1
     else refMsgId (lst (world s)) = getMessageID (confMail (lst (world s))) \<and>
       (\<exists>ps. filter is_data (conn_payloads (conn (world s))) =
          ps @ replicate (Suc (nat (retries (lst (world s))))) (bytes UDP (confMail (lst (world s))))))"
proof -
  obtain R xs where u: "udp_session R s xs" using udp_reach [OF assms] .
  then have inv: "turn_inv (send_pipe s) R (world s)" and wire: "udp_wire R (lst (world s)) (conn (world s)) xs"
    by (simp_all add: udp_session_def)
  have "\<exists>ps. filter is_data (conn_payloads (conn (world s))) =
      ps @ replicate (Suc (nat (retries (lst (world s))))) (bytes UDP (confMail (lst (world s))))"
    if nc: "\<not> receivedConfirm (lst (world s))"
  proof -
    obtain ys m n where "xs = ys @ [(m, n)]" "confMail (lst (world s)) = m" "int n = retries (lst (world s))"
      using wire nc by (auto simp: udp_wire_def)
    moreover from this have "n = nat (retries (lst (world s)))" by linarith
    ultimately have "filter is_data (conn_payloads (conn (world s))) =
        transmissions ys @ replicate (Suc (nat (retries (lst (world s))))) (bytes UDP (confMail (lst (world s))))"
      using wire by (simp add: udp_wire_def)
    then show ?thesis by (rule exI)
  qed
  then show ?thesis
    using inv by (intro exI [of _ R]) (auto simp: turn_inv_def wired_def ack_inv_def getReadFd_def)
qed

lemma demo_awaits: "\<exists>s. reach (udp_start demo_hosts) (sys_step demo_hosts) s \<and> \<not> receivedConfirm (lst (world s)) \<and>
    conn_payloads (conn (world s)) = [[CHR 0xFF, CHR 0x00, CHR 0x00]] \<and> refMsgId (lst (world s)) = 0"
proof -
  obtain s where s: "udp_start demo_hosts s" "reach (udp_start demo_hosts) (sys_step demo_hosts) s"
    "listening (state (machine s))" "todo s = []" "at_rest (world s)" "displayName (mbox (world s)) = ''default''"
    "conn_payloads (conn (world s)) = []" "sequenceUDPNumber (mbox (world s)) = 0" by (rule demo_at_rest)
  have v: "valid_name (displayName (mbox (world s)))" by (simp add: s(6) valid_name_def in_range_def code_def)
  obtain k s' where k: "handleSignal (write_fd (signal_pipe s)) (kernel (world s)) = Inr k"
    "(sys_step demo_hosts)\<^sup>*\<^sup>* (set_world ((world s)\<lparr>kernel := k\<rparr>) s) s'" "bye_awaited s s'"
    using interrupt_bye [OF udp_lives.reach_inv [OF s(2)] s(3,4,5) v, of demo_hosts] by blast
  have "reach (udp_start demo_hosts) (sys_step demo_hosts) s'"
    using k(2) reach_step [OF s(2) sys_step.signal [OF k(1)]] by (induction rule: rtranclp_induct) (auto intro: reach_step)
  moreover have "id_bytes 0 = [CHR 0x00, CHR 0x00]" by code_simp
  ultimately show ?thesis using k(3) s(7,8) by (intro exI [of _ s']) (simp add: bye_awaited_def)
qed

theorem listener_invariant_witness:
  "\<exists>s. reach (udp_start demo_hosts) (sys_step demo_hosts) s \<and> \<not> receivedConfirm (lst (world s)) \<and>
    getMessageID (confMail (lst (world s))) = 0 \<and> (\<exists>ps. filter is_data (conn_payloads (conn (world s))) =
      ps @ replicate (Suc (nat (retries (lst (world s))))) (bytes UDP (confMail (lst (world s)))))"
proof -
  obtain s where s: "reach (udp_start demo_hosts) (sys_step demo_hosts) s" "\<not> receivedConfirm (lst (world s))"
    "refMsgId (lst (world s)) = 0" using demo_awaits by blast
  from listener_invariant [OF s(1)] s show ?thesis by (intro exI [of _ s]) auto
qed

text \<open>
  C26. Every datagram that the program sends over UDP, in every reachable state, is in the grammar of
  the protocol's client, byte by byte: a CONFIRM, an AUTH, a JOIN, a message, an ERR or a BYE with
  a two-byte identifier, whose fields hold only the characters of their alphabets, are neither
  empty nor too long, and are closed by a NUL. None is longer than 1425 bytes.
\<close>

theorem datagrams_well_formed:
  assumes "reach (udp_start g) (sys_step g) s" and "x \<in> set (conn_payloads (conn (world s)))"
  shows "client_datagram x \<and> length x \<le> 1425"
proof -
  obtain R xs where u: "udp_session R s xs" using udp_reach [OF assms(1)] .
  then have wire: "udp_wire R (lst (world s)) (conn (world s)) xs" and said: "said (machine s) (mbox (world s)) (map fst xs)"
    by (simp_all add: udp_session_def)
  have "client_datagram x"
  proof (cases "is_data x")
    case True
    then have "x \<in> set (filter is_data (conn_payloads (conn (world s))))" using assms(2) by simp
    then have "x \<in> set (transmissions xs)" using wire by (simp only: udp_wire_def)
    then obtain m where "m \<in> set (map fst xs)" "x = bytes UDP m" using transmissions_bytes by blast
    then show ?thesis using spoken_mail_datagram said_spoken [OF said] by simp
  next
    case False
    then obtain i where "x = confirmation i" using wire assms(2) unfolding udp_wire_def by blast
    then show ?thesis using client_datagram.confirm [OF id_bytes_length] by (simp add: confirmation_def wire_udp type_bytes [simplified])
  qed
  then show ?thesis by (auto simp: client_datagram.simps words_over_def)
qed

theorem datagrams_well_formed_witness:
  "client_datagram [CHR 0xFF, CHR 0x00, CHR 0x00] \<and>
    (\<exists>s. reach (udp_start demo_hosts) (sys_step demo_hosts) s \<and> conn_payloads (conn (world s)) = [[CHR 0xFF, CHR 0x00, CHR 0x00]])"
proof -
  obtain s where s: "reach (udp_start demo_hosts) (sys_step demo_hosts) s"
    "conn_payloads (conn (world s)) = [[CHR 0xFF, CHR 0x00, CHR 0x00]]" using demo_awaits by blast
  from datagrams_well_formed [OF s(1), of "[CHR 0xFF, CHR 0x00, CHR 0x00]"] s show ?thesis by auto
qed

end
