(* ===== verification/Spec2Isabelle.thy ===== *)
theory Spec2Isabelle
  imports Console Messages Serializer Udp_Reader Tcp_Reader Pipes Mail_Box Fsm Stop_Watch Net Listener
    Reliability Turns Stdin_Listener Args System Dialogue Session Session_Tcp Interrupt
begin

text \<open>
  A verification library for the chat client of this repository (IPK24-CHAT over TCP and UDP,
  \<open>src/main.cpp\<close> and \<open>src/src/\<close>), translated function by function.

  \<^bold>\<open>The program.\<close> \<open>main\<close> parses the command line, opens a connection, makes three pipes and
  starts two threads. The standard input thread (\<open>StdinListener\<close>) copies lines of standard
  input into the first pipe. The listener thread (\<open>Listener\<close>) waits with epoll on four
  descriptors: that pipe, the socket, the notification pipe of the mailbox and the pipe the
  signal handler writes to. A line or a datagram becomes a \<open>Mail\<close> in the incoming queue of the
  \<open>MailBox\<close>. The main thread runs the state machine (\<open>FSM::run\<close>), which takes mails from that
  queue and puts its answers into the outgoing queue, with one byte in the notification pipe
  for each. The listener takes the byte, serialises the mail and sends it. Over UDP it then
  waits for the CONFIRM of the server, sends the mail again when the time runs out, confirms
  what it receives and drops what it has seen before.

  \<^bold>\<open>The theories\<close>, in the order of their imports:
  \<^item> \<open>Prelude\<close>: faults and the result type \<open>fault + 'a\<close>, with \<open>rbind\<close> and \<open>rfold\<close>; characters
    and bytes; the locale \<open>step_invariant\<close>. An exception, an exit, a blocking wait and each
    kind of undefined behaviour of the source is a value of \<open>fault\<close>, so that no branch of the
    code is missing.
  \<^item> \<open>Console\<close>: the trace printers of \<open>utils.h\<close>. \<open>Streams\<close>: reading a word or a line from a
    string stream, and the locale \<open>wire_codec\<close> of a writer with its reader.
  \<^item> \<open>Messages\<close> (\<open>mail-box.h\<close> 20-228): the message structs, whose constructors validate their
    fields and throw, the message types and \<open>Mail\<close>. An enumerator that was never written is
    \<open>None\<close>, and reading it is undefined.
  \<^item> \<open>Serializer\<close> (\<open>MailSerializer\<close>), \<open>Udp_Reader\<close> and \<open>Tcp_Reader\<close> (\<open>writeUDPMail\<close> and
    \<open>writeTCPMail\<close>): the two wire formats. Identifiers are 16-bit words, \<open>char\<close> is signed.
  \<^item> \<open>Pipes\<close> (\<open>pipes.h\<close>): pipes over a table of descriptors (\<open>Kernel\<close>), the locale
    \<open>byte_channel\<close>, and \<open>instantiation\<close> of \<open>linorder\<close> for the descriptor types.
  \<^item> \<open>Mail_Box\<close> (\<open>MailBox\<close>): the queues, numbering, and the commands of the user. Its locale
    \<open>post_office\<close> is what the state machine relies on.
  \<^item> \<open>Fsm\<close> (\<open>fsm.cpp\<close>): one turn of the loop (\<open>fsm_iteration\<close>), the run (\<open>fsm_run\<close>), and the
    transition table \<open>protocol\<close> they refine.
  \<^item> \<open>Stop_Watch\<close> (\<open>stopwatch.h\<close>), \<open>Net\<close> (\<open>net.cpp\<close>): the two protocols and the connection; the
    locale \<open>transport\<close> is interpreted for both.
  \<^item> \<open>Listener\<close> (\<open>listeners.cpp\<close>): every handler and a turn of the event loop, on the record
    \<open>World\<close> of what the thread reaches. \<open>Reliability\<close>: the abstract reaction to a UDP message,
    for one datagram and for sequences. \<open>Turns\<close>: the event loop as a step relation, with the
    invariant of the confirmation protocol.
  \<^item> \<open>Stdin_Listener\<close> and \<open>Args\<close>: the standard input thread and the argument parser.
  \<^item> \<open>System\<close> (\<open>main.cpp\<close>): set-up, the interleaving of the threads as the relation \<open>sys_step\<close>,
    tear-down, and the invariants of the whole program.
  \<^item> \<open>Dialogue\<close>: the language of the mails the machine sends (\<open>speaks\<close>, \<open>spoken\<close>). \<open>Session\<close> and
    \<open>Session_Tcp\<close>: invariants of the program that relate this language, the outgoing queue and
    the bytes on the wire, over UDP and over TCP, and the grammars of the client's datagrams
    (\<open>client_datagram\<close>) and lines (\<open>client_line\<close>). \<open>Interrupt\<close>: the way of a signal over UDP through
    all threads to the end of the program, and what the invariants say along it.
  \<^item> This theory: properties from one end of the program to the other.

  \<^bold>\<open>What the lemmas show.\<close> The machine refines its transition table, turn by turn and for whole
  runs with the mails it sends; BYE is last; no chat leaves before a positive REPLY. Both wire
  formats are given byte by byte, and what the program's own readers make of them is proved for
  every message type, with the cases where it is something else (identifiers whose low byte is 128 or
  more, a UDP REPLY, a TCP AUTH). The validators are compared with alphabets written out letter by letter.
  A UDP message is delivered at most once, in increasing order of identifiers, and confirmed;
  a new mail leaves only when the last one was confirmed; a server that falls silent ends
  the client after the last retry, unless the wait before was too long for the timer. The notification pipe holds exactly one byte per outgoing
  mail in every reachable state, so the listener never takes from an empty queue. The only
  faults of the machine are a wait on an empty mailbox and the rejection of an ERR
  under an invalid display name. A \<open>/auth\<close> line reaches the wire. In every reachable state of
  the program the wire holds the mails of the machine in order, over TCP once each, over UDP
  with at most the allowed retransmissions of each, and their types are a word of the
  protocol's language; each datagram and each line is in the grammar of the client. Over UDP a signal can
  lead an idle program to its end, over TCP the listener leaves its loop exactly after the BYE.
  Several properties state a defect of the code as it is written; the manifest lists them.

  \<^bold>\<open>Bounds and fuel.\<close> \<open>fsm_run\<close> has fuel. Two more than the number of queued mails is enough: every
  turn takes a mail, but for the turn of the ERROR state and the return. The run then ends by
  returning or by waiting on an empty mailbox, which is proved. All other
  functions are total by structural recursion. \<open>epoll_wait\<close> answers at most ten events, as in
  the code (\<open>allowed\<close>). The receive buffer has 1024 bytes and may be given 1500.

  \<^bold>\<open>Parameters.\<close> What is not the repository's code is an argument: \<open>gethostbyname\<close>, the answer of
  \<open>connect\<close>, of \<open>send\<close> and \<open>recvfrom\<close> (\<open>Incoming\<close>), of \<open>epoll_wait\<close> (\<open>Wake\<close>) and of \<open>select\<close> and
  \<open>getline\<close> (\<open>Select\<close>), and each reading of the clock.

  \<^bold>\<open>Not modelled.\<close> The traces of \<open>-v\<close>, apart from the printers themselves; the trace text of a TCP send
  (\<open>net.cpp\<close> 66), which reads past the end of the buffer even without \<open>-v\<close>: it is kept apart as
  \<open>tcp_trace_text\<close> with that fault. Statements about every TCP run hold in any case, and no statement
  of the library rests on the existence of a TCP run with a send; the capacity of a
  pipe; the effect of a partial send, which the code counts as a send. The mutex of the mailbox makes
  its operations atomic, but \<open>displayName\<close>, \<open>srvMsgId\<close> and the sequence number are also used outside
  of it: the steps of \<open>sys_step\<close> (a turn of the machine, one event of the listener) are
  coarser than such a race. \<open>regexPatterns\<close> of \<open>net-utils.h\<close> is not used by the program.
  \<open>stopwatch.cpp\<close> is empty. The Python test server is not part of the client.

  \<^bold>\<open>Plan.\<close> To extend: runs to the end of the program from states in which mails are still queued
  or unconfirmed, the traces of \<open>-v\<close>, and finer steps for the fields shared without the mutex.
\<close>

section \<open>Properties across components\<close>

text \<open>
  C14. From the keyboard to the wire: a complete \<open>/auth\<close> line that the listener takes, the turn
  of the machine in START and the notification of the listener lead to the AUTH datagram with
  the next identifier and the three words of the line, and to the wait for its confirmation
  and for the REPLY that names it.
\<close>

theorem auth_line_reaches_server:
  assumes "valid_username u" and "valid_secret s" and "valid_name d"
    and "udp_world w" and "linked p (mbox w) (kernel w)"
    and "incomingMails (mbox w) = []" and "outgoingMails (mbox w) = []" and "state fsm = START" and "0 \<le> n"
  shows "\<exists>w1 out fsm' mb k w2. take_line (''/auth '' @ u @ SP # s @ SP # d) w = Inr w1 \<and>
    fsm_iteration fsm (mbox w1) (kernel w1) = Inr (out, fsm', mb, k) \<and> state fsm' = AUTH \<and>
    send_next n (w1\<lparr>mbox := mb, kernel := k\<rparr>) = Inr w2 \<and>
    conn_payloads (conn w2) = conn_payloads (conn w) @
      [CHR 0x02 # id_bytes (uint (sequenceUDPNumber (mbox w))) @ u @ NUL # d @ NUL # s @ [NUL]] \<and>
    \<not> receivedConfirm (lst w2) \<and> refMsgId (lst w2) = uint (sequenceUDPNumber (mbox w)) \<and>
    refAuthId (lst w2) = uint (sequenceUDPNumber (mbox w)) \<and> displayName (mbox w2) = d"
proof -
  let ?seq = "sequenceUDPNumber (mbox w)"
  let ?m = "fill default_Mail MessageType.AUTH True (AuthMessage ?seq u d s)"
  let ?w1 = "w\<lparr>mbox := addMail ?m ((mbox w)\<lparr>displayName := d\<rparr>)\<rparr>"
  have line: "take_line (''/auth '' @ u @ SP # s @ SP # d) w = Inr ?w1"
    unfolding take_line_def writeMail_auth [OF assms(1-3)] by simp
  let ?mb1 = "(mbox w)\<lparr>displayName := d\<rparr>"
  have l: "linked p ?mb1 (kernel w)" using assms(5) by (simp add: linked_def)
  have q: "addToMailQueue ?m" by simp
  obtain k where send: "sendMail ?m ?mb1 (kernel w) = Inr (renumber ?seq ?m,
      ?mb1\<lparr>sequenceUDPNumber := ?seq + 1, outgoingMails := [renumber ?seq ?m]\<rparr>, k)"
    using sendMail_linked [OF l q] assms(7) by auto
  have mb1: "mbox ?w1 = ?mb1\<lparr>incomingMails := [?m]\<rparr>" using assms(6) by (simp add: addMail_def)
  have drop: "?mb1\<lparr>incomingMails := []\<rparr> = ?mb1" using assms(6) by (cases "mbox w") simp
  let ?mb2 = "?mb1\<lparr>sequenceUDPNumber := ?seq + 1, outgoingMails := [renumber ?seq ?m]\<rparr>"
  have fsm: "fsm_iteration fsm (mbox ?w1) (kernel ?w1) =
      Inr ([], \<lparr>state = AUTH, fmail = renumber ?seq ?m\<rparr>, ?mb2, k)"
    unfolding mb1
    using assms(8) send drop
    by (simp add: fsm_iteration_def with_mail_def waitMail_def announce_def on_START_def forward_def goto_def)
  obtain c where c: "conn w = Some c" "protocol_type c = UDP" "protocolType (lst w) = UDP"
    using assms(4) by (auto simp: udp_world_def conn_of_def split: option.splits)
  have r: "renumber ?seq ?m = ?m" by (simp add: renumber_def fill_def)
  have ser: "serialize True ?m = Inr (CHR 0x02 # id_bytes (uint ?seq) @ u @ NUL # d @ NUL # s @ [NUL])"
    by (simp add: serialize_def wire_udp type_bytes [simplified])
  obtain w2 where w2: "send_next n (?w1\<lparr>mbox := ?mb2, kernel := k\<rparr>) = Inr w2"
    "conn_payloads (conn w2) = conn_payloads (conn w) @
      [CHR 0x02 # id_bytes (uint ?seq) @ u @ NUL # d @ NUL # s @ [NUL]]"
    "\<not> receivedConfirm (lst w2)" "refMsgId (lst w2) = uint ?seq" "refAuthId (lst w2) = uint ?seq"
    "displayName (mbox w2) = d"
    using c assms(9) ser
    by (simp add: send_next_def getOutgoingMail_def r send_mail_def sendData_def udp_sendData_def sendTo_def
        hand_over_def conn_payloads_def note_sent_def Let_def getMessageID_def)
  show ?thesis using line fsm w2 by auto
qed

theorem auth_line_reaches_server_witness:
  "\<exists>w1 out fsm' mb k w2. take_line ''/auth user pass nick'' demo_udp = Inr w1 \<and>
    fsm_iteration (new_FSM START) (mbox w1) (kernel w1) = Inr (out, fsm', mb, k) \<and>
    send_next 3 (w1\<lparr>mbox := mb, kernel := k\<rparr>) = Inr w2 \<and>
    conn_payloads (conn w2) = [CHR 0x02 # id_bytes 0 @ ''user'' @ NUL # ''nick'' @ NUL # ''pass'' @ [NUL]]"
proof -
  have v: "valid_username ''user''" "valid_secret ''pass''" "valid_name ''nick''"
    by (simp_all add: valid_defs alnum_dash_def in_range_def code_def)
  have l: "linked first_pipe (mbox demo_udp) (kernel demo_udp)"
    using first_in_order [of UDP] by (simp add: in_order_def)
  have z: "conn_payloads (Some demo_connection) = []" "sequenceUDPNumber (new_MailBox UDP (Some first_pipe)) = 0"
    by (simp_all add: conn_payloads_def demo_connection_def new_UdpProtocol_def new_MailBox_def)
  from auth_line_reaches_server [OF v _ l, of "new_FSM START" 3] show ?thesis
    by (auto simp: z new_FSM_def)
qed

end
